theory Spec2Isabelle
  imports Complex_Main "HOL-Library.Multiset"
begin

section \<open>Python strings\<close>

text \<open>
  Texts are lists of 8-bit code points. \<open>is_space\<close> is \<open>str.isspace\<close> on that range, which
  is also the class \<open>\s\<close> of \<open>re\<close> on \<open>str\<close> patterns: tab to carriage return, the four
  separators 28 to 31, the blank, NEL and the no-break space.
\<close>

definition is_space :: "char \<Rightarrow> bool" where
  "is_space c =
     (let n = (of_char c :: nat)
      in (9 \<le> n \<and> n \<le> 13) \<or> (28 \<le> n \<and> n \<le> 32) \<or> n = 133 \<or> n = 160)"

definition is_digit :: "char \<Rightarrow> bool" where
  "is_digit c = (let n = (of_char c :: nat) in 48 \<le> n \<and> n \<le> 57)"

definition is_upper :: "char \<Rightarrow> bool" where
  "is_upper c = (let n = (of_char c :: nat) in 65 \<le> n \<and> n \<le> 90)"

definition is_lower :: "char \<Rightarrow> bool" where
  "is_lower c = (let n = (of_char c :: nat) in 97 \<le> n \<and> n \<le> 122)"

definition to_lower :: "char \<Rightarrow> char" where
  "to_lower c = (if is_upper c then char_of ((of_char c :: nat) + 32) else c)"

text \<open>\<open>s.strip()\<close>\<close>

definition strip :: "string \<Rightarrow> string" where
  "strip s = rev (dropWhile is_space (rev (dropWhile is_space s)))"

text \<open>\<open>text[a:b]\<close> for \<open>0 \<le> a\<close>, \<open>0 \<le> b\<close>; empty when \<open>b \<le> a\<close>, as in Python.\<close>

definition slice :: "string \<Rightarrow> nat \<Rightarrow> nat \<Rightarrow> string" where
  "slice t a b = take (b - a) (drop a t)"

text \<open>\<open>" ".join(xs)\<close>\<close>

fun join_sp :: "string list \<Rightarrow> string" where
  "join_sp [] = []"
| "join_sp [x] = x"
| "join_sp (x # y # ys) = x @ '' '' @ join_sp (y # ys)"

text \<open>
  \<open>s.split()\<close>: the maximal runs of non-blank characters. The scanner carries the word
  being read (\<open>None\<close> between words).
\<close>

fun split_scan :: "string option \<Rightarrow> string \<Rightarrow> string list" where
  "split_scan None [] = []"
| "split_scan (Some w) [] = [w]"
| "split_scan None (c # cs) =
     (if is_space c then split_scan None cs else split_scan (Some [c]) cs)"
| "split_scan (Some w) (c # cs) =
     (if is_space c then w # split_scan None cs else split_scan (Some (w @ [c])) cs)"

definition py_split :: "string \<Rightarrow> string list" where
  "py_split s = split_scan None s"

section \<open>The fragment of \<open>re\<close> the service uses\<close>

text \<open>
  Character classes: \<open>\s\<close>, \<open>\d\<close>, \<open>[A-Z]\<close> as written and under \<open>IGNORECASE\<close>,
  \<open>[A-Z\s]\<close> under \<open>IGNORECASE\<close>, a literal character as written and under
  \<open>IGNORECASE\<close>, and a set of characters such as \<open>[.!?]\<close>.
\<close>

datatype cclass = Ws | Dig | AZ | AZi | AZWsi | Ch char | Chi char | OneOf string

fun cls_ok :: "cclass \<Rightarrow> char \<Rightarrow> bool" where
  "cls_ok Ws c = is_space c"
| "cls_ok Dig c = is_digit c"
| "cls_ok AZ c = is_upper c"
| "cls_ok AZi c = (is_upper c \<or> is_lower c)"
| "cls_ok AZWsi c = (is_upper c \<or> is_lower c \<or> is_space c)"
| "cls_ok (Ch x) c = (c = x)"
| "cls_ok (Chi x) c = (to_lower c = to_lower x)"
| "cls_ok (OneOf xs) c = (c \<in> set xs)"

text \<open>
  Patterns: one character of a class, a greedy repetition \<open>c{m,}\<close> of a class, a greedy
  optional group, sequence, ordered alternative, \<open>^\<close> and \<open>$\<close> under \<open>MULTILINE\<close>, and the
  one-character look-behind and look-ahead. Every repetition in the service's patterns
  is over a single class.
\<close>

datatype rx =
    Eps
  | Cls cclass
  | Rep cclass nat
  | Opt rx
  | Seq rx rx
  | Alt rx rx
  | Bol
  | Eol
  | Behind cclass
  | Ahead cclass

text \<open>The number of characters of the class from position \<open>i\<close> on.\<close>

definition run :: "cclass \<Rightarrow> string \<Rightarrow> nat \<Rightarrow> nat" where
  "run c t i = length (takeWhile (cls_ok c) (drop i t))"

text \<open>
  Greedy repetition with backtracking: the continuation is tried after \<open>n\<close> characters,
  then after \<open>n - 1\<close>, down to \<open>m\<close>.
\<close>

fun backtrack :: "(nat \<Rightarrow> nat option) \<Rightarrow> nat \<Rightarrow> nat \<Rightarrow> nat \<Rightarrow> nat option" where
  "backtrack k i m 0 = (if m = 0 then k i else None)"
| "backtrack k i m (Suc n) =
     (if Suc n < m then None
      else case k (i + Suc n) of Some e \<Rightarrow> Some e | None \<Rightarrow> backtrack k i m n)"

text \<open>
  The backtracking matcher: \<open>rx_match r t i k\<close> matches \<open>r\<close> in \<open>t\<close> from position \<open>i\<close> and
  hands the position it reaches to the continuation \<open>k\<close>; the result is the end of the
  first match in the order \<open>re\<close> tries them.
\<close>

fun rx_match :: "rx \<Rightarrow> string \<Rightarrow> nat \<Rightarrow> (nat \<Rightarrow> nat option) \<Rightarrow> nat option" where
  "rx_match Eps t i k = k i"
| "rx_match (Cls c) t i k = (if i < length t \<and> cls_ok c (t ! i) then k (Suc i) else None)"
| "rx_match (Rep c m) t i k = backtrack k i m (run c t i)"
| "rx_match (Opt r) t i k =
     (case rx_match r t i k of Some e \<Rightarrow> Some e | None \<Rightarrow> k i)"
| "rx_match (Seq r1 r2) t i k = rx_match r1 t i (\<lambda>j. rx_match r2 t j k)"
| "rx_match (Alt r1 r2) t i k =
     (case rx_match r1 t i k of Some e \<Rightarrow> Some e | None \<Rightarrow> rx_match r2 t i k)"
| "rx_match Bol t i k = (if i = 0 \<or> t ! (i - 1) = CHR 0x0A then k i else None)"
| "rx_match Eol t i k = (if i = length t \<or> t ! i = CHR 0x0A then k i else None)"
| "rx_match (Behind c) t i k = (if 0 < i \<and> cls_ok c (t ! (i - 1)) then k i else None)"
| "rx_match (Ahead c) t i k = (if i < length t \<and> cls_ok c (t ! i) then k i else None)"

text \<open>
  \<open>finditer\<close>: the start positions are tried from left to right; a position inside the
  previous match is skipped; the search resumes at the end of a match (one further after
  an empty match, which none of the service's patterns has).
\<close>

fun scan :: "rx \<Rightarrow> string \<Rightarrow> nat \<Rightarrow> nat list \<Rightarrow> (nat \<times> nat) list" where
  "scan r t pos [] = []"
| "scan r t pos (s # ss) =
     (if s < pos then scan r t pos ss
      else case rx_match r t s Some of
             None \<Rightarrow> scan r t pos ss
           | Some e \<Rightarrow> (s, e) # scan r t (if s < e then e else Suc s) ss)"

definition finditer :: "rx \<Rightarrow> string \<Rightarrow> (nat \<times> nat) list" where
  "finditer r t = scan r t 0 [0..<Suc (length t)]"

text \<open>\<open>pattern.split(text)\<close> for a pattern without groups: the pieces between the matches.\<close>

fun pieces :: "string \<Rightarrow> nat \<Rightarrow> (nat \<times> nat) list \<Rightarrow> string list" where
  "pieces t pos [] = [drop pos t]"
| "pieces t pos ((s, e) # ms) = slice t pos s # pieces t e ms"

definition re_split :: "rx \<Rightarrow> string \<Rightarrow> string list" where
  "re_split r t = pieces t 0 (finditer r t)"

fun seqs :: "rx list \<Rightarrow> rx" where
  "seqs [] = Eps"
| "seqs [r] = r"
| "seqs (r # rs) = Seq r (seqs rs)"

fun alts :: "rx \<Rightarrow> rx list \<Rightarrow> rx" where
  "alts r [] = r"
| "alts r (r' # rs) = Alt r (alts r' rs)"

text \<open>A literal word under \<open>IGNORECASE\<close>.\<close>

definition lit :: "string \<Rightarrow> rx" where
  "lit s = seqs (map (\<lambda>c. Cls (Chi c)) s)"

section \<open>The chunking service\<close>

record ChunkData =
  content :: string
  section_title :: "string option"
  chunk_index :: nat
  token_count :: nat

text \<open>The settings the services read (\<open>app/config.py\<close>), with their defaults.\<close>

record Settings =
  chunk_size :: int
  chunk_overlap :: int
  top_k_chunks :: int
  embedding_dimensions :: int

definition default_settings :: Settings where
  "default_settings =
     \<lparr>chunk_size = 512, chunk_overlap = 50, top_k_chunks = 5, embedding_dimensions = 3072\<rparr>"

text \<open>\<open>x or d\<close> for an optional integer argument: \<open>None\<close> and \<open>0\<close> are both falsy.\<close>

definition py_or :: "int option \<Rightarrow> int \<Rightarrow> int" where
  "py_or x d = (case x of None \<Rightarrow> d | Some v \<Rightarrow> if v = 0 then d else v)"

subsection \<open>Section detection\<close>

text \<open>\<open>(\d+\.?\s+)?\<close>, the optional number in front of a section name.\<close>

definition numbered :: rx where
  "numbered = Opt (seqs [Rep Dig 1, Opt (Cls (Ch CHR ''.'')), Rep Ws 1])"

text \<open>\<open>^(\d+\.?\s+)?NAME\s*$\<close>, with \<open>plural\<close> the optional final letter of \<open>NAMEs?\<close>.\<close>

definition named :: "string \<Rightarrow> rx \<Rightarrow> rx" where
  "named name plural = seqs [Bol, numbered, lit name, plural, Rep Ws 0, Eol]"

definition opt_s :: rx where
  "opt_s = Opt (Cls (Chi CHR ''s''))"

text \<open>
  The thirteen \<open>section_patterns\<close>, in the source's order. In the fifth, the alternation
  binds weaker than the sequence: \<open>^(\d+\.?\s+)?Methodology\<close> or \<open>Methods?\s*$\<close>.
\<close>

definition section_patterns :: "rx list" where
  "section_patterns =
     [ seqs [Bol, Alt (lit ''Abstract'') (lit ''ABSTRACT''), Rep Ws 0, Eol],
       named ''Introduction'' Eps,
       named ''Background'' Eps,
       named ''Related Work'' Eps,
       Alt (seqs [Bol, numbered, lit ''Methodology''])
           (seqs [lit ''Method'', opt_s, Rep Ws 0, Eol]),
       named ''Experiment'' opt_s,
       named ''Result'' opt_s,
       named ''Discussion'' Eps,
       named ''Conclusion'' Eps,
       named ''Reference'' opt_s,
       named ''Appendix'' Eps,
       seqs [Bol, Cls AZi, Rep AZWsi 2, Eol],
       seqs [Bol, Rep Dig 1, Cls (Ch CHR ''.''), Rep Ws 1, Cls AZi] ]"

text \<open>\<open>"|".join(f"({p})" for p in section_patterns)\<close>, compiled with \<open>MULTILINE | IGNORECASE\<close>.\<close>

definition header_regex :: rx where
  "header_regex = alts (hd section_patterns) (tl section_patterns)"

text \<open>The loop over the matches: title, and body up to the next match or the end.\<close>

fun section_loop :: "string \<Rightarrow> (nat \<times> nat) list \<Rightarrow> (string option \<times> string) list" where
  "section_loop t [] = []"
| "section_loop t ((s, e) # ms) =
     (let title = strip (slice t s e);
          start = e;
          stop = (case ms of [] \<Rightarrow> length t | (s', e') # ms' \<Rightarrow> s');
          body = strip (slice t start stop)
      in (if body \<noteq> [] then [(Some title, body)] else []) @ section_loop t ms)"

definition sections_of :: "(nat \<times> nat) list \<Rightarrow> string \<Rightarrow> (string option \<times> string) list" where
  "sections_of matches t =
     (case matches of
        [] \<Rightarrow> [(None, t)]
      | (s0, e0) # ms \<Rightarrow>
          (if 0 < s0
           then (let pre_content = strip (take s0 t)
                 in if pre_content \<noteq> [] then [(None, pre_content)] else [])
           else [])
          @ section_loop t matches)"

definition detect_sections :: "string \<Rightarrow> (string option \<times> string) list" where
  "detect_sections t = sections_of (finditer header_regex t) t"

subsection \<open>Sentence splitting\<close>

text \<open>\<open>(?<=[.!?])\s+(?=[A-Z])\<close>, compiled without flags.\<close>

definition sentence_endings :: rx where
  "sentence_endings = seqs [Behind (OneOf ''.!?''), Rep Ws 1, Ahead AZ]"

definition split_sentences :: "string \<Rightarrow> string list" where
  "split_sentences t = filter (\<lambda>s. s \<noteq> []) (map strip (re_split sentence_endings t))"

subsection \<open>Token counting\<close>

text \<open>
  \<open>count_tokens\<close> is the length of the cl100k\_base encoding of \<open>tiktoken\<close>, a library the
  service imports. Every definition below takes \<open>count_tokens\<close> as its first argument, and
  the general theorems hold for every such function.

  \<open>sample_tokens\<close> is a tokenizer to run the service on concrete texts: one token for a
  maximal run of letters and digits together with one blank directly in front of it,
  and one token for every other character. On short texts of common words, blanks and
  full stops this is the number of pieces into which cl100k\_base cuts the text.
\<close>

definition is_alnum :: "char \<Rightarrow> bool" where
  "is_alnum c = (is_upper c \<or> is_lower c \<or> is_digit c)"

fun sample_scan :: "bool \<Rightarrow> string \<Rightarrow> nat" where
  "sample_scan in_word [] = 0"
| "sample_scan in_word (c # cs) =
     (if is_alnum c then (if in_word then 0 else 1) + sample_scan True cs
      else if c = CHR '' '' \<and> cs \<noteq> [] \<and> is_alnum (hd cs) then 1 + sample_scan True cs
      else 1 + sample_scan False cs)"

definition sample_tokens :: "string \<Rightarrow> nat" where
  "sample_tokens s = sample_scan False s"

subsection \<open>Splitting a section by tokens\<close>

definition mk_chunk :: "(string \<Rightarrow> nat) \<Rightarrow> string list \<Rightarrow> string option \<Rightarrow> nat \<Rightarrow> ChunkData" where
  "mk_chunk count_tokens parts title idx =
     (let chunk_text = join_sp parts
      in \<lparr>content = strip chunk_text, section_title = title, chunk_index = idx,
          token_count = count_tokens chunk_text\<rparr>)"

text \<open>
  The state of the loops of \<open>_split_by_tokens\<close>: the chunks so far, the next chunk index,
  the buffer (\<open>current_chunk\<close>, or \<open>word_chunk\<close> in the word loop) and its token total.
\<close>

record split_state =
  chunks :: "ChunkData list"
  next_index :: nat
  buffer :: "string list"
  buffer_tokens :: nat

text \<open>The loop over the words of a sentence that is larger than the chunk size.\<close>

fun word_loop ::
  "(string \<Rightarrow> nat) \<Rightarrow> string option \<Rightarrow> int \<Rightarrow> string list \<Rightarrow> split_state \<Rightarrow> split_state" where
  "word_loop count_tokens title csize [] st = st"
| "word_loop count_tokens title csize (word # ws) st =
     (let word_token_count = count_tokens (word @ '' '');
          st' = (if int (buffer_tokens st + word_token_count) > csize \<and> buffer st \<noteq> []
                 then st\<lparr>chunks := chunks st @ [mk_chunk count_tokens (buffer st) title (next_index st)],
                         next_index := next_index st + 1,
                         buffer := [],
                         buffer_tokens := 0\<rparr>
                 else st)
      in word_loop count_tokens title csize ws
           (st'\<lparr>buffer := buffer st' @ [word],
                buffer_tokens := buffer_tokens st' + word_token_count\<rparr>))"

text \<open>
  The overlap loop, over the flushed buffer from its end backward; it stops at the
  first sentence that does not fit.
\<close>

fun overlap_loop ::
  "(string \<Rightarrow> nat) \<Rightarrow> int \<Rightarrow> string list \<Rightarrow> string list \<times> nat \<Rightarrow> string list \<times> nat" where
  "overlap_loop count_tokens coverlap [] (overlap_chunk, overlap_tokens) =
     (overlap_chunk, overlap_tokens)"
| "overlap_loop count_tokens coverlap (s # ss) (overlap_chunk, overlap_tokens) =
     (let s_tokens = count_tokens s
      in if int (overlap_tokens + s_tokens) \<le> coverlap
         then overlap_loop count_tokens coverlap ss (s # overlap_chunk, overlap_tokens + s_tokens)
         else (overlap_chunk, overlap_tokens))"

text \<open>One iteration of the loop over the sentences.\<close>

definition sentence_step ::
  "(string \<Rightarrow> nat) \<Rightarrow> string option \<Rightarrow> int \<Rightarrow> int \<Rightarrow> split_state \<Rightarrow> string \<Rightarrow> split_state" where
  "sentence_step count_tokens title csize coverlap st sentence =
     (let sentence_tokens = count_tokens sentence
      in if int sentence_tokens > csize
         then
           (let st1 = (if buffer st \<noteq> []
                       then st\<lparr>chunks := chunks st @ [mk_chunk count_tokens (buffer st) title (next_index st)],
                               next_index := next_index st + 1,
                               buffer := [],
                               buffer_tokens := 0\<rparr>
                       else st);
                w = word_loop count_tokens title csize (py_split sentence)
                      (st1\<lparr>buffer := [], buffer_tokens := 0\<rparr>)
            in if buffer w \<noteq> [] then w
               else w\<lparr>buffer := buffer st1, buffer_tokens := buffer_tokens st1\<rparr>)
         else
           (let st1 = (if int (buffer_tokens st + sentence_tokens) > csize \<and> buffer st \<noteq> []
                       then (let (overlap_chunk, overlap_tokens) =
                                   overlap_loop count_tokens coverlap (rev (buffer st)) ([], 0)
                             in st\<lparr>chunks := chunks st @ [mk_chunk count_tokens (buffer st) title (next_index st)],
                                   next_index := next_index st + 1,
                                   buffer := overlap_chunk,
                                   buffer_tokens := overlap_tokens\<rparr>)
                       else st)
            in st1\<lparr>buffer := buffer st1 @ [sentence],
                   buffer_tokens := buffer_tokens st1 + sentence_tokens\<rparr>))"

definition split_by_tokens ::
  "(string \<Rightarrow> nat) \<Rightarrow> string \<Rightarrow> string option \<Rightarrow> int \<Rightarrow> int \<Rightarrow> nat \<Rightarrow> ChunkData list" where
  "split_by_tokens count_tokens t title csize coverlap start_index =
     (let st = foldl (sentence_step count_tokens title csize coverlap)
                 \<lparr>chunks = [], next_index = start_index, buffer = [], buffer_tokens = 0\<rparr>
                 (split_sentences t)
      in if buffer st \<noteq> []
         then chunks st @ [mk_chunk count_tokens (buffer st) title (next_index st)]
         else chunks st)"

subsection \<open>\<open>chunk_text\<close>\<close>

text \<open>The loop over the sections, with the chunks so far and the running chunk index.\<close>

fun chunk_sections ::
  "(string \<Rightarrow> nat) \<Rightarrow> int \<Rightarrow> int \<Rightarrow> (string option \<times> string) list \<Rightarrow> ChunkData list \<Rightarrow> nat
     \<Rightarrow> ChunkData list" where
  "chunk_sections count_tokens csize coverlap [] acc idx = acc"
| "chunk_sections count_tokens csize coverlap ((title, section_content) # rest) acc idx =
     (let section_tokens = count_tokens section_content
      in if int section_tokens \<le> csize
         then chunk_sections count_tokens csize coverlap rest
                (acc @ [\<lparr>content = strip section_content, section_title = title,
                          chunk_index = idx, token_count = section_tokens\<rparr>])
                (idx + 1)
         else (let section_chunks =
                     split_by_tokens count_tokens section_content title csize coverlap idx
               in chunk_sections count_tokens csize coverlap rest
                    (acc @ section_chunks) (idx + length section_chunks)))"

definition chunk_text ::
  "(string \<Rightarrow> nat) \<Rightarrow> Settings \<Rightarrow> string \<Rightarrow> int option \<Rightarrow> int option \<Rightarrow> ChunkData list" where
  "chunk_text count_tokens settings t size_arg overlap_arg =
     (let csize = py_or size_arg (chunk_size settings);
          coverlap = py_or overlap_arg (chunk_overlap settings)
      in chunk_sections count_tokens csize coverlap (detect_sections t) [] 0)"

text \<open>A non-empty string whose first and last characters are no blanks.\<close>

definition tight :: "string \<Rightarrow> bool" where
  "tight p = (p \<noteq> [] \<and> \<not> is_space (hd p) \<and> \<not> is_space (last p))"

text \<open>
  A chunk whose content has no blank at either end: the content is empty or tight,
  and trimming it changes nothing.
\<close>

definition trimmed :: "ChunkData \<Rightarrow> bool" where
  "trimmed c = (strip (content c) = content c \<and> (content c = [] \<or> tight (content c)))"

text \<open>
  A word without a blank, and a chunk whose stored token count is the count of its
  own content.
\<close>

definition no_blank :: "string \<Rightarrow> bool" where
  "no_blank w = (w \<noteq> [] \<and> (\<forall>c \<in> set w. \<not> is_space c))"

definition consistent :: "(string \<Rightarrow> nat) \<Rightarrow> ChunkData \<Rightarrow> bool" where
  "consistent count_tokens c = (token_count c = count_tokens (content c))"

text \<open>The invariant of the loops of \<open>_split_by_tokens\<close> for the token counts.\<close>

definition split_inv :: "(string \<Rightarrow> nat) \<Rightarrow> split_state \<Rightarrow> bool" where
  "split_inv count_tokens st =
     ((\<forall>p \<in> set (buffer st). tight p) \<and> (\<forall>c \<in> set (chunks st). consistent count_tokens c))"







section \<open>Errors\<close>

text \<open>
  The exceptions the modelled paths raise: \<open>ValueError\<close> and \<open>RuntimeError\<close> from the
  embedding service, \<open>MultipleResultsFound\<close> from \<open>scalar_one_or_none\<close>, and the database's
  own errors for a negative \<open>LIMIT\<close> and a \<open>NOT NULL\<close> column left empty.
\<close>

datatype error = ValueError | RuntimeError | MultipleResultsFound | DataError | IntegrityError

section \<open>The embedding service\<close>

text \<open>\<open>_clean_text\<close>: blank runs become one blank, the ends are trimmed, 25000 characters at most.\<close>

definition clean_text :: "string \<Rightarrow> string" where
  "clean_text t =
     (if t = [] then []
      else (let cleaned = join_sp (py_split t)
            in if length cleaned > 25000 then take 25000 cleaned else cleaned))"

text \<open>
  The embedding API is a parameter: \<open>api content attempt\<close> is the vector it returns at
  that attempt, or \<open>None\<close> when the call raises. The loop of \<open>embed_query\<close> returns the
  first vector and raises \<open>RuntimeError\<close> after the last failed attempt.
\<close>

fun query_attempts :: "(string \<Rightarrow> nat \<Rightarrow> real list option) \<Rightarrow> string \<Rightarrow> nat list \<Rightarrow> error + real list" where
  "query_attempts api q [] = Inl RuntimeError"
| "query_attempts api q (attempt # rest) =
     (case api q attempt of Some v \<Rightarrow> Inr v | None \<Rightarrow> query_attempts api q rest)"

definition max_retries :: nat where
  "max_retries = 3"

definition embed_query :: "(string \<Rightarrow> nat \<Rightarrow> real list option) \<Rightarrow> string \<Rightarrow> error + real list" where
  "embed_query api query =
     (let cleaned_query = clean_text query
      in if cleaned_query = [] then Inl ValueError
         else query_attempts api cleaned_query [0..<max_retries])"

section \<open>The retrieval service\<close>

record RetrievedChunk =
  chunk_id :: string
  content_r :: string
  section_title_r :: "string option"
  chunk_index_r :: int
  similarity_score :: real
  paper_id :: "string option"
  paper_filename :: "string option"

text \<open>
  A row of \<open>chunks JOIN embeddings JOIN papers\<close>. The database is the list of these rows
  in the order the engine scans them. A \<open>float8\<close> value is a real number; the
  arithmetic on them is exact in the first model of the query and a parameter in the
  second.
\<close>

record chunk_row =
  row_id :: string
  row_content :: string
  row_section_title :: "string option"
  row_chunk_index :: int
  row_paper_id :: string
  row_paper_filename :: string
  row_embedding :: "real list"

subsection \<open>The SQL of \<open>_vector_search\<close> in exact arithmetic\<close>

text \<open>\<open>SUM\<close> over a column without NULL: NULL over no rows.\<close>

definition sql_sum :: "real list \<Rightarrow> real option" where
  "sql_sum xs = (if xs = [] then None else Some (sum_list xs))"

text \<open>
  \<open>SUM(a * b)\<close> over \<open>unnest(embedding, query)\<close>: the shorter array is padded with NULL,
  a product with NULL is NULL, and \<open>SUM\<close> skips NULL.
\<close>

definition dot_product :: "real list \<Rightarrow> real list \<Rightarrow> real option" where
  "dot_product e q = sql_sum (map (\<lambda>(a, b). a * b) (zip e q))"

definition magnitude_product :: "real list \<Rightarrow> real list \<Rightarrow> real option" where
  "magnitude_product e q =
     (case (sql_sum (map (\<lambda>a. a * a) e), sql_sum (map (\<lambda>b. b * b) q)) of
        (Some x, Some y) \<Rightarrow> Some (sqrt x * sqrt y)
      | _ \<Rightarrow> None)"

definition nullif_zero :: "real option \<Rightarrow> real option" where
  "nullif_zero x = (if x = Some 0 then None else x)"

definition similarity :: "real list \<Rightarrow> real list \<Rightarrow> real option" where
  "similarity e q =
     (case (dot_product e q, nullif_zero (magnitude_product e q)) of
        (Some d, Some m) \<Rightarrow> Some (d / m)
      | _ \<Rightarrow> None)"

text \<open>The optional \<open>WHERE c.paper_id = :paper_id\<close>; an empty id is falsy and filters nothing.\<close>

definition paper_filter :: "string option \<Rightarrow> chunk_row list \<Rightarrow> chunk_row list" where
  "paper_filter pid rows =
     (case pid of
        None \<Rightarrow> rows
      | Some p \<Rightarrow> if p = [] then rows else filter (\<lambda>r. row_paper_id r = p) rows)"

text \<open>The rows of \<open>similarities\<close> that pass \<open>WHERE similarity IS NOT NULL\<close>, with their score.\<close>

definition valid_candidates :: "real list \<Rightarrow> chunk_row list \<Rightarrow> (chunk_row \<times> real) list" where
  "valid_candidates q rows =
     concat (map (\<lambda>r. case similarity (row_embedding r) q of
                         None \<Rightarrow> [] | Some s \<Rightarrow> [(r, s)]) rows)"

text \<open>
  \<open>ORDER BY similarity DESC LIMIT k\<close>: the first \<open>k\<close> rows of some arrangement of the rows
  by descending score. SQL does not fix the order of rows with equal scores.
\<close>

definition order_by_desc_limit :: "nat \<Rightarrow> ('a \<times> real) list \<Rightarrow> ('a \<times> real) list \<Rightarrow> bool" where
  "order_by_desc_limit k xs res =
     (\<exists>ys. mset ys = mset xs \<and> sorted_wrt (\<lambda>a b. snd a \<ge> snd b) ys \<and> res = take k ys)"

definition to_retrieved :: "chunk_row \<times> real \<Rightarrow> RetrievedChunk" where
  "to_retrieved x =
     (case x of (r, s) \<Rightarrow>
        \<lparr>chunk_id = row_id r, content_r = row_content r,
         section_title_r = row_section_title r, chunk_index_r = row_chunk_index r,
         similarity_score = s, paper_id = Some (row_paper_id r),
         paper_filename = Some (row_paper_filename r)\<rparr>)"

text \<open>
  \<open>_vector_search\<close> relates its arguments and the database to its outcomes: the
  database's error for a negative \<open>LIMIT\<close> and for an empty query vector (the array
  literal of an empty list has no \<open>float\<close> element to cast), or the chunks of a
  permitted result. Here the scores are computed in exact arithmetic.
\<close>

definition vector_search ::
  "chunk_row list \<Rightarrow> real list \<Rightarrow> int \<Rightarrow> string option \<Rightarrow> error + RetrievedChunk list \<Rightarrow> bool" where
  "vector_search db query_vector top_k pid outcome =
     (if top_k < 0 \<or> query_vector = [] then outcome = Inl DataError
      else (\<exists>res. order_by_desc_limit (nat top_k)
                     (valid_candidates query_vector (paper_filter pid db)) res
                 \<and> outcome = Inr (map to_retrieved res)))"

definition retrieve_chunks ::
  "Settings \<Rightarrow> (string \<Rightarrow> nat \<Rightarrow> real list option) \<Rightarrow> chunk_row list \<Rightarrow> string \<Rightarrow> string option
     \<Rightarrow> int option \<Rightarrow> error + RetrievedChunk list \<Rightarrow> bool" where
  "retrieve_chunks settings api db query pid top_k_arg outcome =
     (let top_k = py_or top_k_arg (top_k_chunks settings)
      in case embed_query api query of
           Inl e \<Rightarrow> outcome = Inl e
         | Inr query_embedding \<Rightarrow> vector_search db query_embedding top_k pid outcome)"

text \<open>
  The ranker as the specification words it: the valid candidates in input order,
  sorted by descending score with a stable sort, cut at \<open>k\<close>.
\<close>

definition stable_rank :: "chunk_row list \<Rightarrow> real list \<Rightarrow> nat \<Rightarrow> RetrievedChunk list" where
  "stable_rank db q k =
     map to_retrieved (take k (sort_key (\<lambda>x. - snd x) (valid_candidates q db)))"

subsection \<open>The same query in \<open>float8\<close> arithmetic\<close>

text \<open>
  The arithmetic of the database is a parameter: each operation gives the \<open>float8\<close>
  result, or \<open>None\<close> where PostgreSQL raises \<open>value out of range\<close> (overflow, underflow).
  With \<open>exact_arith\<close> the operations are those of the real numbers.
\<close>

record float8_arith =
  f8_mul :: "real \<Rightarrow> real \<Rightarrow> real option"
  f8_add :: "real \<Rightarrow> real \<Rightarrow> real option"
  f8_div :: "real \<Rightarrow> real \<Rightarrow> real option"
  f8_sqrt :: "real \<Rightarrow> real option"

definition exact_arith :: float8_arith where
  "exact_arith =
     \<lparr>f8_mul = (\<lambda>a b. Some (a * b)), f8_add = (\<lambda>a b. Some (a + b)),
      f8_div = (\<lambda>a b. Some (a / b)), f8_sqrt = (\<lambda>a. Some (sqrt a))\<rparr>"

text \<open>The result of an operation, or the database's error.\<close>

definition checked :: "real option \<Rightarrow> error + real" where
  "checked x = (case x of None \<Rightarrow> Inl DataError | Some v \<Rightarrow> Inr v)"

text \<open>Sequencing: the first error ends the evaluation.\<close>

definition and_then :: "error + 'a \<Rightarrow> ('a \<Rightarrow> error + 'b) \<Rightarrow> error + 'b" where
  "and_then x f = (case x of Inl e \<Rightarrow> Inl e | Inr v \<Rightarrow> f v)"

text \<open>\<open>SUM\<close> adds the values one after the other to the first; NULL over no rows.\<close>

fun f8_sum_from :: "float8_arith \<Rightarrow> real \<Rightarrow> real list \<Rightarrow> error + real" where
  "f8_sum_from ar acc [] = Inr acc"
| "f8_sum_from ar acc (x # xs) =
     and_then (checked (f8_add ar acc x)) (\<lambda>a. f8_sum_from ar a xs)"

definition f8_sum :: "float8_arith \<Rightarrow> real list \<Rightarrow> error + real option" where
  "f8_sum ar xs =
     (case xs of
        [] \<Rightarrow> Inr None
      | x # rest \<Rightarrow> and_then (f8_sum_from ar x rest) (\<lambda>v. Inr (Some v)))"

text \<open>The products \<open>a * b\<close> of the rows of an \<open>unnest\<close>.\<close>

fun f8_products :: "float8_arith \<Rightarrow> (real \<times> real) list \<Rightarrow> error + real list" where
  "f8_products ar [] = Inr []"
| "f8_products ar ((a, b) # ps) =
     and_then (checked (f8_mul ar a b))
       (\<lambda>p. and_then (f8_products ar ps) (\<lambda>rest. Inr (p # rest)))"

definition f8_dot_product :: "float8_arith \<Rightarrow> real list \<Rightarrow> real list \<Rightarrow> error + real option" where
  "f8_dot_product ar e q = and_then (f8_products ar (zip e q)) (f8_sum ar)"

definition f8_sum_squares :: "float8_arith \<Rightarrow> real list \<Rightarrow> error + real option" where
  "f8_sum_squares ar v = and_then (f8_products ar (map (\<lambda>a. (a, a)) v)) (f8_sum ar)"

definition f8_magnitude_product :: "float8_arith \<Rightarrow> real list \<Rightarrow> real list \<Rightarrow> error + real option" where
  "f8_magnitude_product ar e q =
     and_then (f8_sum_squares ar e) (\<lambda>sa.
     and_then (f8_sum_squares ar q) (\<lambda>sb.
       case (sa, sb) of
         (Some x, Some y) \<Rightarrow>
           and_then (checked (f8_sqrt ar x)) (\<lambda>rx.
           and_then (checked (f8_sqrt ar y)) (\<lambda>ry.
           and_then (checked (f8_mul ar rx ry)) (\<lambda>m. Inr (Some m))))
       | _ \<Rightarrow> Inr None))"

definition f8_similarity :: "float8_arith \<Rightarrow> real list \<Rightarrow> real list \<Rightarrow> error + real option" where
  "f8_similarity ar e q =
     and_then (f8_dot_product ar e q) (\<lambda>d.
     and_then (f8_magnitude_product ar e q) (\<lambda>m.
       case (d, nullif_zero m) of
         (Some dv, Some mv) \<Rightarrow> and_then (checked (f8_div ar dv mv)) (\<lambda>s. Inr (Some s))
       | _ \<Rightarrow> Inr None))"

text \<open>
  The rows that pass \<open>WHERE similarity IS NOT NULL\<close>, with their score; an error in
  the score of any row is the error of the query.
\<close>

fun f8_candidates :: "float8_arith \<Rightarrow> real list \<Rightarrow> chunk_row list \<Rightarrow> error + (chunk_row \<times> real) list" where
  "f8_candidates ar q [] = Inr []"
| "f8_candidates ar q (r # rs) =
     and_then (f8_similarity ar (row_embedding r) q) (\<lambda>s.
     and_then (f8_candidates ar q rs) (\<lambda>rest.
       Inr (case s of None \<Rightarrow> rest | Some v \<Rightarrow> (r, v) # rest)))"

definition f8_vector_search ::
  "float8_arith \<Rightarrow> chunk_row list \<Rightarrow> real list \<Rightarrow> int \<Rightarrow> string option
     \<Rightarrow> error + RetrievedChunk list \<Rightarrow> bool" where
  "f8_vector_search ar db query_vector top_k pid outcome =
     (if top_k < 0 \<or> query_vector = [] then outcome = Inl DataError
      else case f8_candidates ar query_vector (paper_filter pid db) of
             Inl e \<Rightarrow> outcome = Inl e
           | Inr cands \<Rightarrow>
               (\<exists>res. order_by_desc_limit (nat top_k) cands res
                     \<and> outcome = Inr (map to_retrieved res)))"

section \<open>The question page and its answer cache\<close>

text \<open>A row of \<open>query_cache\<close>; \<open>chunk_refs\<close> holds the chunk ids and the paper ids.\<close>

record QueryCache =
  qc_id :: nat
  qc_paper_id :: "string option"
  question :: string
  answer :: string
  chunk_refs :: "string list \<times> string list"

text \<open>\<open>Result.scalar_one_or_none()\<close>: no row, the one row, or \<open>MultipleResultsFound\<close>.\<close>

definition scalar_one_or_none :: "'a list \<Rightarrow> error + 'a option" where
  "scalar_one_or_none rows =
     (case rows of [] \<Rightarrow> Inr None | [r] \<Rightarrow> Inr (Some r) | r # r' # rs \<Rightarrow> Inl MultipleResultsFound)"

text \<open>\<open>get_cached_answer\<close> returns the answer and the paper id of the row.\<close>

definition get_cached_answer :: "QueryCache list \<Rightarrow> string \<Rightarrow> error + (string \<times> string option) option" where
  "get_cached_answer table q =
     (case scalar_one_or_none (filter (\<lambda>r. question r = q) table) of
        Inl e \<Rightarrow> Inl e
      | Inr None \<Rightarrow> Inr None
      | Inr (Some cached) \<Rightarrow> Inr (Some (answer cached, qc_paper_id cached)))"

text \<open>
  The events the page causes outside itself, in order: a ranking (the call of
  \<open>retrieve_chunks\<close>), a compression, a generation, a stored cache row.
\<close>

datatype event = Ranked string | Compressed string | Generated string | Stored string

text \<open>The state the page works on: the cache table, the ids handed out, the events.\<close>

record world =
  cache :: "QueryCache list"
  next_id :: nat
  calls :: "event list"

text \<open>
  \<open>cache_answer\<close> adds a row and commits. The column \<open>paper_id\<close> is \<open>NOT NULL\<close>: without a
  paper id the commit fails, the session rolls back and the error is raised again.
\<close>

definition cache_answer :: "world \<Rightarrow> string \<Rightarrow> string \<Rightarrow> string list \<Rightarrow> string list \<Rightarrow> error + world" where
  "cache_answer w q a chunk_ids paper_ids =
     (let cache_entry =
            \<lparr>qc_id = next_id w,
             qc_paper_id = (if paper_ids \<noteq> [] then Some (hd paper_ids) else None),
             question = q, answer = a, chunk_refs = (chunk_ids, paper_ids)\<rparr>
      in if qc_paper_id cache_entry = None then Inl IntegrityError
         else Inr (w\<lparr>cache := cache w @ [cache_entry], next_id := next_id w + 1,
                     calls := calls w @ [Stored q]\<rparr>))"

record Answer =
  text_a :: string
  chunk_ids_a :: "string list"
  confidence_a :: string

text \<open>
  The services the page calls are parameters: the outcome of \<open>retrieve_chunks\<close> on the
  current papers, the compression and the generation (neither of which raises). So
  is the order in which Python iterates a set of strings: it is the order of the keys
  \<open>set_order\<close>, fixed for the process and arbitrary.
\<close>

record services =
  retrieve :: "string \<Rightarrow> error + RetrievedChunk list"
  compress_context :: "string list \<Rightarrow> string \<Rightarrow> string"
  generate_answer :: "string \<Rightarrow> string \<Rightarrow> string list \<Rightarrow> Answer"
  set_order :: "string \<Rightarrow> nat"

record source_chunk =
  sc_section :: "string option"
  sc_content :: string
  sc_score :: real
  sc_paper :: "string option"

record qa_result =
  answer_text :: string
  cached :: bool
  confidence :: string
  source_chunks :: "source_chunk list"

definition not_found_message :: string where
  "not_found_message = ''I couldn't find relevant information in any of your uploaded papers to answer this question. Please make sure you have uploaded relevant documents.''"

text \<open>
  The elements of \<open>set(c.paper_id for c in retrieved_chunks if c.paper_id)\<close>: the distinct
  non-empty paper ids. \<open>answer_question\<close> lists them in the order of the set.
\<close>

definition paper_ids_of :: "RetrievedChunk list \<Rightarrow> string list" where
  "paper_ids_of cs =
     remdups (concat (map (\<lambda>c. case paper_id c of None \<Rightarrow> [] | Some p \<Rightarrow> if p = [] then [] else [p]) cs))"

definition answer_question :: "services \<Rightarrow> world \<Rightarrow> string \<Rightarrow> (error + qa_result) \<times> world" where
  "answer_question svc w q =
     (case get_cached_answer (cache w) q of
        Inl e \<Rightarrow> (Inl e, w)
      | Inr (Some c) \<Rightarrow>
          (Inr \<lparr>answer_text = fst c, cached = True, confidence = ''high'', source_chunks = []\<rparr>, w)
      | Inr None \<Rightarrow>
          (let w1 = w\<lparr>calls := calls w @ [Ranked q]\<rparr>
           in case retrieve svc q of
                Inl e \<Rightarrow> (Inl e, w1)
              | Inr retrieved_chunks \<Rightarrow>
                  if retrieved_chunks = []
                  then (Inr \<lparr>answer_text = not_found_message, cached = False,
                             confidence = ''low'', source_chunks = []\<rparr>, w1)
                  else
                    (let chunk_contents = map content_r retrieved_chunks;
                         chunk_ids = map chunk_id retrieved_chunks;
                         paper_ids = sort_key (set_order svc) (paper_ids_of retrieved_chunks);
                         compressed_context = compress_context svc chunk_contents q;
                         w2 = w1\<lparr>calls := calls w1 @ [Compressed q]\<rparr>;
                         a = generate_answer svc compressed_context q chunk_ids;
                         w3 = w2\<lparr>calls := calls w2 @ [Generated q]\<rparr>
                     in case cache_answer w3 q (text_a a) chunk_ids paper_ids of
                          Inl e \<Rightarrow> (Inl e, w3)
                        | Inr w4 \<Rightarrow>
                            (Inr \<lparr>answer_text = text_a a, cached = False,
                                   confidence = confidence_a a,
                                   source_chunks =
                                     map (\<lambda>c. \<lparr>sc_section = section_title_r c,
                                                sc_content = content_r c,
                                                sc_score = similarity_score c,
                                                sc_paper = paper_filename c\<rparr>)
                                         retrieved_chunks\<rparr>, w4))))"

section \<open>Sample inputs\<close>

text \<open>Rows of the cache table, a world with an empty cache, and services that find the given chunks.\<close>

definition row_of :: "nat \<Rightarrow> string \<Rightarrow> string \<Rightarrow> QueryCache" where
  "row_of i q a =
     \<lparr>qc_id = i, qc_paper_id = Some ''p1'', question = q, answer = a,
      chunk_refs = ([''c1''], [''p1''])\<rparr>"

definition fresh_world :: world where
  "fresh_world = \<lparr>cache = [], next_id = 0, calls = []\<rparr>"

definition one_chunk :: RetrievedChunk where
  "one_chunk =
     \<lparr>chunk_id = ''c1'', content_r = ''We go.'', section_title_r = Some ''Abstract'',
      chunk_index_r = 0, similarity_score = 1, paper_id = Some ''p1'',
      paper_filename = Some ''a.pdf''\<rparr>"

definition sample_services :: "RetrievedChunk list \<Rightarrow> services" where
  "sample_services found =
     \<lparr>retrieve = (\<lambda>q. Inr found),
      compress_context = (\<lambda>cs q. join_sp cs),
      generate_answer =
        (\<lambda>ctx q ids. \<lparr>text_a = ctx, chunk_ids_a = ids, confidence_a = ''high''\<rparr>),
      set_order = length\<rparr>"

text \<open>A stored chunk with the given id and embedding, and the chunk retrieved from it.\<close>

definition row_with :: "string \<Rightarrow> real list \<Rightarrow> chunk_row" where
  "row_with i v =
     \<lparr>row_id = i, row_content = ''We go.'', row_section_title = None, row_chunk_index = 0,
      row_paper_id = ''p1'', row_paper_filename = ''a.pdf'', row_embedding = v\<rparr>"

definition retrieved_with :: "string \<Rightarrow> real \<Rightarrow> RetrievedChunk" where
  "retrieved_with i s =
     \<lparr>chunk_id = i, content_r = ''We go.'', section_title_r = None, chunk_index_r = 0,
      similarity_score = s, paper_id = Some ''p1'', paper_filename = Some ''a.pdf''\<rparr>"

text \<open>An embedding API that answers every call at once.\<close>

definition sample_api :: "string \<Rightarrow> nat \<Rightarrow> real list option" where
  "sample_api txt attempt = Some [1, 0]"

text \<open>The specification's ranking scenario, and two candidates with the same score.\<close>

definition ranker_example :: "chunk_row list" where
  "ranker_example = [row_with ''A'' [1, 0], row_with ''B'' [0, 0]]"

definition tie_example :: "chunk_row list" where
  "tie_example = [row_with ''A'' [1, 0], row_with ''B'' [1, 0]]"

section \<open>Theorems\<close>

subsection \<open>Trimming\<close>

lemma dropWhile_snoc_keep: "\<not> P x \<Longrightarrow> dropWhile P (zs @ [x]) = dropWhile P zs @ [x]"
  by (induction zs) auto

lemma strip_Nil: "strip [] = []"
  by (simp add: strip_def)

lemma strip_strip: "strip (strip s) = strip s"
proof (cases "dropWhile is_space s")
  case Nil
  have "strip s = []" by (simp only: strip_def Nil) simp
  then show ?thesis by (simp add: strip_Nil)
next
  case (Cons x xs)
  then have nx: "\<not> is_space x"
    by (metis hd_dropWhile list.sel(1) list.distinct(1))
  have w: "dropWhile is_space (rev (x # xs)) = dropWhile is_space (rev xs) @ [x]"
    unfolding rev.simps by (rule dropWhile_snoc_keep) (rule nx)
  have s: "strip s = x # rev (dropWhile is_space (rev xs))"
    unfolding strip_def Cons w by simp
  have "dropWhile is_space (strip s) = strip s"
    using nx by (simp add: s)
  moreover have "rev (strip s) = dropWhile is_space (rev (x # xs))"
    unfolding strip_def Cons by (simp only: rev_rev_ident)
  ultimately have "strip (strip s) = rev (dropWhile is_space (rev (x # xs)))"
    unfolding strip_def[of "strip s"] by (simp only: dropWhile_idem)
  also have "\<dots> = strip s"
    unfolding strip_def Cons by (rule refl)
  finally show ?thesis .
qed

lemma last_dropWhile: "dropWhile P xs \<noteq> [] \<Longrightarrow> last (dropWhile P xs) = last xs"
proof (induction xs)
  case Nil
  then show ?case by simp
next
  case (Cons a xs)
  show ?case
  proof (cases "P a")
    case True
    with Cons.prems have d: "dropWhile P xs \<noteq> []" by simp
    then have "xs \<noteq> []" by (cases xs) simp_all
    with Cons.IH[OF d] True show ?thesis by simp
  next
    case False
    then show ?thesis by simp
  qed
qed

lemma tight_strip: "strip s \<noteq> [] \<Longrightarrow> tight (strip s)"
proof -
  assume ne: "strip s \<noteq> []"
  let ?X = "dropWhile is_space s"
  let ?W = "dropWhile is_space (rev ?X)"
  have s: "strip s = rev ?W" by (simp add: strip_def)
  with ne have W: "?W \<noteq> []" by simp
  have X: "?X \<noteq> []"
  proof
    assume "?X = []"
    then have "?W = []" by (simp only: rev.simps(1) dropWhile.simps(1))
    with W show False by (rule notE)
  qed
  have "\<not> is_space (hd ?W)" using W by (rule hd_dropWhile)
  then have l: "\<not> is_space (last (strip s))"
    using W by (simp add: s last_rev)
  have "last ?W = last (rev ?X)" using W by (rule last_dropWhile)
  also have "\<dots> = hd ?X" using X by (simp add: last_rev)
  finally have "hd (strip s) = hd ?X" using W by (simp add: s hd_rev)
  moreover have "\<not> is_space (hd ?X)" using X by (rule hd_dropWhile)
  ultimately show ?thesis using ne l by (simp add: tight_def)
qed

lemma trimmed_of_strip: "content c = strip x \<Longrightarrow> trimmed c"
proof -
  assume c: "content c = strip x"
  have "strip x = [] \<or> tight (strip x)" using tight_strip[of x] by blast
  then show ?thesis by (simp add: trimmed_def c strip_strip)
qed

subsection \<open>Texts without a heading\<close>

lemma no_heading_sections: "finditer header_regex t = [] \<Longrightarrow> detect_sections t = [(None, t)]"
  by (simp add: detect_sections_def sections_of_def)

lemma chunk_text_no_heading:
  assumes "finditer header_regex t = []"
    and "int (count_tokens t) \<le> py_or size_arg (chunk_size settings)"
  shows "chunk_text count_tokens settings t size_arg overlap_arg =
           [\<lparr>content = strip t, section_title = None, chunk_index = 0,
             token_count = count_tokens t\<rparr>]"
  using assms by (simp add: chunk_text_def no_heading_sections)

lemma finditer_empty_text: "finditer header_regex [] = []"
  by code_simp

lemma default_size_fits_empty: "int (sample_tokens []) \<le> py_or None (chunk_size default_settings)"
  by code_simp

subsection \<open>The chunk budget\<close>

lemma three_sentences:
  "split_sentences ''We. He. It is so.'' = [''We.'', ''He.'', ''It is so.'']"
  by code_simp

lemma three_sentences_section:
  "detect_sections ''We. He. It is so.'' = [(None, ''We. He. It is so.'')]"
  by code_simp

lemma three_sentences_strip:
  "strip ''We. He.'' = ''We. He.''" "strip ''He. It is so.'' = ''He. It is so.''"
  by code_simp+

lemma three_sentences_sample:
  "sample_tokens ''We. He. It is so.'' = 8" "sample_tokens ''We.'' = 2"
  "sample_tokens ''He.'' = 2" "sample_tokens ''It is so.'' = 4"
  "sample_tokens ''We. He.'' = 4" "sample_tokens ''He. It is so.'' = 6"
  by code_simp+

text \<open>
  C1, budget respect. The claim: every chunk of \<open>chunk_text\<close> has a token count of at most
  the chunk size, except a chunk of the word-level fallback. The service breaks it on
  the text \<open>We. He. It is so.\<close> with chunk size 4 and overlap 2, for every token counter
  that gives the three sentences 2, 2 and 4 tokens (the text 8, the joined chunks 4
  and 6): no sentence is larger than the chunk size, so the word-level fallback never
  runs, and the second chunk is the overlap \<open>He.\<close> followed by \<open>It is so.\<close>, appended
  without a second look at the budget, with 6 tokens.
\<close>

theorem overlap_seed_exceeds_budget:
  assumes "count_tokens ''We. He. It is so.'' = 8"
    and "count_tokens ''We.'' = 2" and "count_tokens ''He.'' = 2"
    and "count_tokens ''It is so.'' = 4"
    and "count_tokens ''We. He.'' = 4" and "count_tokens ''He. It is so.'' = 6"
  shows "chunk_text count_tokens settings ''We. He. It is so.'' (Some 4) (Some 2) =
           [\<lparr>content = ''We. He.'', section_title = None, chunk_index = 0, token_count = 4\<rparr>,
            \<lparr>content = ''He. It is so.'', section_title = None, chunk_index = 1,
              token_count = 6\<rparr>]
         \<and> map count_tokens (split_sentences ''We. He. It is so.'') = [2, 2, 4]"
  using assms
  by (simp add: chunk_text_def three_sentences_section py_or_def split_by_tokens_def
      three_sentences sentence_step_def mk_chunk_def three_sentences_strip Let_def)

theorem overlap_seed_exceeds_budget_witness:
  "chunk_text sample_tokens default_settings ''We. He. It is so.'' (Some 4) (Some 2) =
     [\<lparr>content = ''We. He.'', section_title = None, chunk_index = 0, token_count = 4\<rparr>,
      \<lparr>content = ''He. It is so.'', section_title = None, chunk_index = 1, token_count = 6\<rparr>]
   \<and> map sample_tokens (split_sentences ''We. He. It is so.'') = [2, 2, 4]"
  by (rule overlap_seed_exceeds_budget) (rule three_sentences_sample)+

text \<open>
  C2, token-count self-consistency. The claim: the stored token count of every chunk
  is the token count of the chunk's own content. For a text without a heading that
  fits the chunk size, the service stores the token count of the whole text and the
  trimmed text as content: the two differ as soon as the blanks at the ends of the
  text carry a token.
\<close>

theorem unsplit_chunk_counts_untrimmed_text:
  assumes "finditer header_regex t = []"
    and "int (count_tokens t) \<le> py_or size_arg (chunk_size settings)"
  shows "map (\<lambda>c. (content c, token_count c))
           (chunk_text count_tokens settings t size_arg overlap_arg) =
         [(strip t, count_tokens t)]"
  using assms by (simp add: chunk_text_no_heading)

theorem unsplit_chunk_counts_untrimmed_text_witness:
  "map (\<lambda>c. (content c, token_count c))
     (chunk_text sample_tokens default_settings ''Hello. '' None None) = [(''Hello.'', 3)]
   \<and> sample_tokens ''Hello.'' = 2"
proof -
  have a: "finditer header_regex ''Hello. '' = []" by code_simp
  have b: "int (sample_tokens ''Hello. '') \<le> py_or None (chunk_size default_settings)"
    by code_simp
  have c: "strip ''Hello. '' = ''Hello.''" by code_simp
  have d: "sample_tokens ''Hello. '' = 3" by code_simp
  have e: "sample_tokens ''Hello.'' = 2" by code_simp
  show ?thesis
    using unsplit_chunk_counts_untrimmed_text
      [where t = "''Hello. ''" and count_tokens = sample_tokens and size_arg = None
         and settings = default_settings and overlap_arg = None, OF a b]
    by (simp add: c d e)
qed

text \<open>
  C3, the empty text. The claim: \<open>chunk_text\<close> on the empty string returns no chunk.
  The service returns one chunk with empty content: the header pattern has no match
  in the empty text, so the text is its own single section, and its token count fits
  every chunk size that the count of the empty string fits.
\<close>

theorem empty_text_gives_one_empty_chunk:
  assumes "int (count_tokens []) \<le> py_or size_arg (chunk_size settings)"
  shows "chunk_text count_tokens settings [] size_arg overlap_arg =
           [\<lparr>content = [], section_title = None, chunk_index = 0,
             token_count = count_tokens []\<rparr>]"
  using assms by (simp add: chunk_text_no_heading finditer_empty_text strip_Nil)

theorem empty_text_gives_one_empty_chunk_witness:
  "chunk_text sample_tokens default_settings [] None None =
     [\<lparr>content = [], section_title = None, chunk_index = 0, token_count = 0\<rparr>]"
proof -
  have "sample_tokens [] = 0" by code_simp
  then show ?thesis
    using empty_text_gives_one_empty_chunk
      [where count_tokens = sample_tokens and size_arg = None and settings = default_settings
         and overlap_arg = None, OF default_size_fits_empty]
    by simp
qed

subsection \<open>Chunk contents are trimmed\<close>

lemma trimmed_mk_chunk: "trimmed (mk_chunk ct parts title idx)"
  by (rule trimmed_of_strip[where x = "join_sp parts"]) (simp add: mk_chunk_def Let_def)

lemma word_loop_trimmed:
  "\<forall>c \<in> set (chunks st). trimmed c \<Longrightarrow>
   \<forall>c \<in> set (chunks (word_loop ct title csize ws st)). trimmed c"
proof (induction ws arbitrary: st)
  case Nil
  then show ?case by simp
next
  case (Cons w ws)
  show ?case
    unfolding word_loop.simps Let_def
    by (rule Cons.IH) (use Cons.prems in \<open>auto simp: trimmed_mk_chunk\<close>)
qed

lemma sentence_step_trimmed:
  assumes "\<forall>c \<in> set (chunks st). trimmed c"
  shows "\<forall>c \<in> set (chunks (sentence_step ct title csize coverlap st s)). trimmed c"
proof (cases "int (ct s) > csize")
  case True
  let ?st1 = "(if buffer st \<noteq> []
               then st\<lparr>chunks := chunks st @ [mk_chunk ct (buffer st) title (next_index st)],
                       next_index := next_index st + 1, buffer := [], buffer_tokens := 0\<rparr>
               else st)"
  have a: "\<forall>c \<in> set (chunks (?st1\<lparr>buffer := [], buffer_tokens := 0\<rparr>)). trimmed c"
    using assms by (auto simp: trimmed_mk_chunk)
  show ?thesis
    using True word_loop_trimmed[OF a, of ct title csize "py_split s"]
    by (simp add: sentence_step_def Let_def)
next
  case False
  then show ?thesis
    using assms
    by (auto simp: sentence_step_def Let_def trimmed_mk_chunk split: prod.splits)
qed

lemma foldl_sentence_step_trimmed:
  "\<forall>c \<in> set (chunks st). trimmed c \<Longrightarrow>
   \<forall>c \<in> set (chunks (foldl (sentence_step ct title csize coverlap) st ss)). trimmed c"
proof (induction ss arbitrary: st)
  case Nil
  then show ?case by simp
next
  case (Cons s ss)
  show ?case
    unfolding foldl_Cons
    by (rule Cons.IH) (rule sentence_step_trimmed[OF Cons.prems])
qed

lemma split_by_tokens_trimmed:
  "\<forall>c \<in> set (split_by_tokens ct t title csize coverlap i). trimmed c"
proof -
  have "\<forall>c \<in> set (chunks (foldl (sentence_step ct title csize coverlap)
           \<lparr>chunks = [], next_index = i, buffer = [], buffer_tokens = 0\<rparr>
           (split_sentences t))). trimmed c"
    by (rule foldl_sentence_step_trimmed) simp
  then show ?thesis
    by (auto simp: split_by_tokens_def Let_def trimmed_mk_chunk)
qed

lemma chunk_sections_trimmed:
  "\<forall>c \<in> set acc. trimmed c \<Longrightarrow>
   \<forall>c \<in> set (chunk_sections ct csize coverlap secs acc idx). trimmed c"
proof (induction secs arbitrary: acc idx)
  case Nil
  then show ?case by simp
next
  case (Cons sec secs)
  obtain title body where sec: "sec = (title, body)" by (cases sec)
  show ?case
  proof (cases "int (ct body) \<le> csize")
    case True
    have "trimmed \<lparr>content = strip body, section_title = title,
              chunk_index = idx, token_count = ct body\<rparr>"
      by (rule trimmed_of_strip[where x = body]) simp
    then have "\<forall>c \<in> set (acc @ [\<lparr>content = strip body, section_title = title,
              chunk_index = idx, token_count = ct body\<rparr>]). trimmed c"
      using Cons.prems by auto
    from Cons.IH[OF this] show ?thesis
      using True by (simp add: sec Let_def)
  next
    case False
    have "\<forall>c \<in> set (acc @ split_by_tokens ct body title csize coverlap idx). trimmed c"
      using Cons.prems split_by_tokens_trimmed by auto
    from Cons.IH[OF this] show ?thesis
      using False by (simp add: sec Let_def)
  qed
qed

text \<open>
  C9, trimmed contents. Every chunk of \<open>chunk_text\<close> has a content without a blank at
  either end: the content is empty, or its first and its last character are no
  blanks; and the content equals its own trimmed form. This holds for every token
  counter, every settings, every text and every pair of arguments.
\<close>

theorem chunk_text_content_trimmed:
  "\<forall>c \<in> set (chunk_text count_tokens settings t size_arg overlap_arg).
      (content c = [] \<or> (\<not> is_space (hd (content c)) \<and> \<not> is_space (last (content c))))
      \<and> strip (content c) = content c"
proof
  fix c
  assume "c \<in> set (chunk_text count_tokens settings t size_arg overlap_arg)"
  moreover have "\<forall>c \<in> set (chunk_text count_tokens settings t size_arg overlap_arg). trimmed c"
    unfolding chunk_text_def Let_def by (rule chunk_sections_trimmed) simp
  ultimately have "trimmed c" by blast
  then show "(content c = [] \<or> (\<not> is_space (hd (content c)) \<and> \<not> is_space (last (content c))))
      \<and> strip (content c) = content c"
    by (auto simp: trimmed_def tight_def)
qed

theorem chunk_text_content_trimmed_witness:
  "\<lparr>content = ''He. It is so.'', section_title = None, chunk_index = 1, token_count = 6\<rparr>
     \<in> set (chunk_text sample_tokens default_settings ''We. He. It is so.'' (Some 4) (Some 2))
   \<and> (''He. It is so.'' = [] \<or>
        (\<not> is_space (hd ''He. It is so.'') \<and> \<not> is_space (last ''He. It is so.'')))
   \<and> strip ''He. It is so.'' = ''He. It is so.''"
proof -
  let ?c = "\<lparr>content = ''He. It is so.'', section_title = None, chunk_index = 1,
              token_count = 6\<rparr>"
  let ?cs = "chunk_text sample_tokens default_settings ''We. He. It is so.'' (Some 4) (Some 2)"
  have "?cs =
     [\<lparr>content = ''We. He.'', section_title = None, chunk_index = 0, token_count = 4\<rparr>, ?c]"
    by (simp add: chunk_text_def three_sentences_section py_or_def split_by_tokens_def
        three_sentences sentence_step_def mk_chunk_def three_sentences_strip Let_def
        three_sentences_sample)
  then have m: "?c \<in> set ?cs" by simp
  from chunk_text_content_trimmed[of sample_tokens default_settings "''We. He. It is so.''"
      "Some 4" "Some 2"] m
  have "(content ?c = [] \<or> (\<not> is_space (hd (content ?c)) \<and> \<not> is_space (last (content ?c))))
      \<and> strip (content ?c) = content ?c" by (rule bspec)
  then show ?thesis using m by simp
qed

subsection \<open>Token counts of the other chunks\<close>

text \<open>
  Apart from the single chunk of a text without a heading, every chunk is built from
  trimmed parts, and its stored token count is the count of its content.
\<close>

lemma strip_tight: "tight p \<Longrightarrow> strip p = p"
proof -
  assume t: "tight p"
  then obtain x xs where p: "p = x # xs" and x: "\<not> is_space x"
    by (cases p) (simp_all add: tight_def)
  have a: "dropWhile is_space p = p" using p x by simp
  from t have ne: "rev p \<noteq> []" by (simp add: tight_def)
  then obtain y ys where r: "rev p = y # ys" by (cases "rev p") simp_all
  have "y = hd (rev p)" by (simp add: r)
  also have "\<dots> = last p" using t by (simp add: hd_rev tight_def)
  finally have "\<not> is_space y" using t by (simp add: tight_def)
  then have "dropWhile is_space (rev p) = rev p" by (simp add: r)
  then show ?thesis by (simp add: strip_def a)
qed

lemma join_sp_tight: "ps \<noteq> [] \<Longrightarrow> \<forall>p \<in> set ps. tight p \<Longrightarrow> tight (join_sp ps)"
proof (induction ps rule: join_sp.induct)
  case 1
  then show ?case by simp
next
  case (2 x)
  then show ?case by simp
next
  case (3 x y ys)
  then have j: "tight (join_sp (y # ys))" and x: "tight x" by simp_all
  from j have ne: "join_sp (y # ys) \<noteq> []" by (simp add: tight_def)
  have "hd (join_sp (x # y # ys)) = hd x" using x by (simp add: tight_def)
  moreover have "last (join_sp (x # y # ys)) = last (join_sp (y # ys))" using ne by simp
  ultimately show ?case using j x by (simp add: tight_def)
qed

lemma no_blank_snoc: "no_blank w \<Longrightarrow> \<not> is_space c \<Longrightarrow> no_blank (w @ [c])"
  by (simp add: no_blank_def)

lemma no_blank_single: "\<not> is_space c \<Longrightarrow> no_blank [c]"
  by (simp add: no_blank_def)

lemma split_scan_words:
  "(\<forall>x \<in> set (split_scan None s). no_blank x)
   \<and> (\<forall>w. no_blank w \<longrightarrow> (\<forall>x \<in> set (split_scan (Some w) s). no_blank x))"
proof (induction s)
  case Nil
  show ?case by simp
next
  case (Cons c cs)
  show ?case
  proof (cases "is_space c")
    case True
    with Cons.IH show ?thesis by simp
  next
    case False
    have a: "\<forall>x \<in> set (split_scan (Some [c]) cs). no_blank x"
      using Cons.IH no_blank_single[OF False] by blast
    have b: "\<forall>x \<in> set (split_scan (Some (w @ [c])) cs). no_blank x" if "no_blank w" for w
      using Cons.IH no_blank_snoc[OF that False] by blast
    from a b False show ?thesis by simp
  qed
qed

lemma no_blank_tight: "no_blank w \<Longrightarrow> tight w"
  by (simp add: no_blank_def tight_def)

lemma py_split_tight: "\<forall>w \<in> set (py_split s). tight w"
  using split_scan_words[of s] no_blank_tight by (auto simp: py_split_def)

lemma split_sentences_tight: "\<forall>p \<in> set (split_sentences t). tight p"
  by (auto simp: split_sentences_def tight_strip)


lemma overlap_loop_subset:
  "set (fst (overlap_loop ct co ss acc)) \<subseteq> set ss \<union> set (fst acc)"
proof (induction ss arbitrary: acc)
  case Nil
  show ?case by (cases acc) simp
next
  case (Cons s ss)
  obtain oc ot where acc: "acc = (oc, ot)" by (cases acc)
  show ?case
  proof (cases "int (ot + ct s) \<le> co")
    case True
    with Cons.IH[of "(s # oc, ot + ct s)"] show ?thesis
      by (simp add: acc Let_def subset_iff)
  next
    case False
    then show ?thesis by (auto simp: acc Let_def)
  qed
qed


lemma mk_chunk_consistent:
  "parts \<noteq> [] \<Longrightarrow> \<forall>p \<in> set parts. tight p \<Longrightarrow> consistent ct (mk_chunk ct parts title idx)"
  by (simp add: consistent_def mk_chunk_def Let_def strip_tight join_sp_tight)

lemma split_inv_flush:
  "split_inv ct st \<Longrightarrow> buffer st \<noteq> [] \<Longrightarrow>
   split_inv ct (st\<lparr>chunks := chunks st @ [mk_chunk ct (buffer st) title j],
                    next_index := i, buffer := b, buffer_tokens := n\<rparr>)
     \<longleftrightarrow> (\<forall>p \<in> set b. tight p)"
  by (simp add: split_inv_def mk_chunk_consistent ball_Un)

lemma split_inv_buffer:
  "split_inv ct st \<Longrightarrow> \<forall>p \<in> set b. tight p \<Longrightarrow> split_inv ct (st\<lparr>buffer := b, buffer_tokens := n\<rparr>)"
  by (simp add: split_inv_def)

lemma split_inv_tight: "split_inv ct st \<Longrightarrow> \<forall>p \<in> set (buffer st). tight p"
  by (simp add: split_inv_def)

lemma word_loop_inv:
  "split_inv ct st \<Longrightarrow> \<forall>w \<in> set ws. tight w \<Longrightarrow> split_inv ct (word_loop ct title csize ws st)"
proof (induction ws arbitrary: st)
  case Nil
  then show ?case by simp
next
  case (Cons w ws)
  let ?n = "ct (w @ '' '')"
  let ?st' = "(if int (buffer_tokens st + ?n) > csize \<and> buffer st \<noteq> []
               then st\<lparr>chunks := chunks st @ [mk_chunk ct (buffer st) title (next_index st)],
                       next_index := next_index st + 1,
                       buffer := [],
                       buffer_tokens := 0\<rparr>
               else st)"
  have a: "split_inv ct ?st'"
    using Cons.prems(1) by (simp add: split_inv_flush)
  have w: "tight w" and ws: "\<forall>w \<in> set ws. tight w" using Cons.prems(2) by simp_all
  have "\<forall>p \<in> set (buffer ?st' @ [w]). tight p"
    using split_inv_tight[OF a] w by (simp add: ball_Un)
  from split_inv_buffer[OF a this]
  have "split_inv ct (?st'\<lparr>buffer := buffer ?st' @ [w], buffer_tokens := buffer_tokens ?st' + ?n\<rparr>)" .
  from Cons.IH[OF this ws] show ?case
    by (simp only: word_loop.simps Let_def)
qed

lemma sentence_step_inv:
  assumes inv: "split_inv ct st" and s: "tight s"
  shows "split_inv ct (sentence_step ct title csize coverlap st s)"
proof (cases "int (ct s) > csize")
  case True
  let ?st1 = "(if buffer st \<noteq> []
               then st\<lparr>chunks := chunks st @ [mk_chunk ct (buffer st) title (next_index st)],
                       next_index := next_index st + 1, buffer := [], buffer_tokens := 0\<rparr>
               else st)"
  let ?w = "word_loop ct title csize (py_split s) (?st1\<lparr>buffer := [], buffer_tokens := 0\<rparr>)"
  have a: "split_inv ct ?st1" using inv by (simp add: split_inv_flush)
  have b: "split_inv ct (?st1\<lparr>buffer := [], buffer_tokens := 0\<rparr>)"
    by (rule split_inv_buffer[OF a]) simp
  have w: "split_inv ct ?w"
    by (rule word_loop_inv[OF b py_split_tight])
  have "split_inv ct (?w\<lparr>buffer := buffer ?st1, buffer_tokens := buffer_tokens ?st1\<rparr>)"
    by (rule split_inv_buffer[OF w split_inv_tight[OF a]])
  with w have c: "split_inv ct (if buffer ?w \<noteq> [] then ?w
                 else ?w\<lparr>buffer := buffer ?st1, buffer_tokens := buffer_tokens ?st1\<rparr>)"
    by simp
  have "sentence_step ct title csize coverlap st s =
          (if buffer ?w \<noteq> [] then ?w
           else ?w\<lparr>buffer := buffer ?st1, buffer_tokens := buffer_tokens ?st1\<rparr>)"
    using True by (simp add: sentence_step_def Let_def)
  with c show ?thesis by (simp only:)
next
  case False
  let ?ov = "overlap_loop ct coverlap (rev (buffer st)) ([], 0)"
  let ?st1 = "(if int (buffer_tokens st + ct s) > csize \<and> buffer st \<noteq> []
               then st\<lparr>chunks := chunks st @ [mk_chunk ct (buffer st) title (next_index st)],
                       next_index := next_index st + 1,
                       buffer := fst ?ov,
                       buffer_tokens := snd ?ov\<rparr>
               else st)"
  have "\<forall>p \<in> set (fst ?ov). tight p"
    using overlap_loop_subset[of ct coverlap "rev (buffer st)" "([], 0)"] split_inv_tight[OF inv]
    by auto
  then have a: "split_inv ct ?st1" using inv by (simp add: split_inv_flush)
  have "\<forall>p \<in> set (buffer ?st1 @ [s]). tight p"
    using split_inv_tight[OF a] s by (simp add: ball_Un)
  from split_inv_buffer[OF a this]
  have b: "split_inv ct (?st1\<lparr>buffer := buffer ?st1 @ [s], buffer_tokens := buffer_tokens ?st1 + ct s\<rparr>)" .
  have "sentence_step ct title csize coverlap st s =
          ?st1\<lparr>buffer := buffer ?st1 @ [s], buffer_tokens := buffer_tokens ?st1 + ct s\<rparr>"
    using False by (simp add: sentence_step_def Let_def case_prod_unfold)
  with b show ?thesis by (simp only:)
qed

lemma foldl_sentence_step_inv:
  "split_inv ct st \<Longrightarrow> \<forall>s \<in> set ss. tight s
     \<Longrightarrow> split_inv ct (foldl (sentence_step ct title csize coverlap) st ss)"
proof (induction ss arbitrary: st)
  case Nil
  then show ?case by simp
next
  case (Cons s ss)
  from Cons.prems(2) have s: "tight s" and ss: "\<forall>s \<in> set ss. tight s" by simp_all
  show ?case
    unfolding foldl_Cons
    by (rule Cons.IH[OF sentence_step_inv[OF Cons.prems(1) s] ss])
qed

lemma split_by_tokens_consistent:
  "\<forall>c \<in> set (split_by_tokens ct t title csize coverlap i). consistent ct c"
proof -
  let ?st = "foldl (sentence_step ct title csize coverlap)
               \<lparr>chunks = [], next_index = i, buffer = [], buffer_tokens = 0\<rparr>
               (split_sentences t)"
  have "split_inv ct \<lparr>chunks = [], next_index = i, buffer = [], buffer_tokens = 0\<rparr>"
    by (simp add: split_inv_def)
  then have inv: "split_inv ct ?st"
    by (rule foldl_sentence_step_inv) (rule split_sentences_tight)
  then have c: "\<forall>c \<in> set (chunks ?st). consistent ct c" by (simp add: split_inv_def)
  show ?thesis
  proof (cases "buffer ?st = []")
    case True
    with c show ?thesis by (simp add: split_by_tokens_def Let_def)
  next
    case False
    from mk_chunk_consistent[OF False split_inv_tight[OF inv]] c False
    show ?thesis by (simp add: split_by_tokens_def Let_def ball_Un)
  qed
qed

lemma chunk_sections_consistent:
  "\<forall>c \<in> set acc. consistent ct c \<Longrightarrow> \<forall>sec \<in> set secs. strip (snd sec) = snd sec
     \<Longrightarrow> \<forall>c \<in> set (chunk_sections ct csize coverlap secs acc idx). consistent ct c"
proof (induction secs arbitrary: acc idx)
  case Nil
  then show ?case by simp
next
  case (Cons sec secs)
  obtain title body where sec: "sec = (title, body)" by (cases sec)
  from Cons.prems(2) have body: "strip body = body"
    and secs: "\<forall>sec \<in> set secs. strip (snd sec) = snd sec" by (simp_all add: sec)
  show ?case
  proof (cases "int (ct body) \<le> csize")
    case True
    have "\<forall>c \<in> set (acc @ [\<lparr>content = strip body, section_title = title,
              chunk_index = idx, token_count = ct body\<rparr>]). consistent ct c"
      using Cons.prems(1) by (simp add: consistent_def body ball_Un)
    from Cons.IH[OF this secs] show ?thesis
      using True by (simp add: sec Let_def)
  next
    case False
    have "\<forall>c \<in> set (acc @ split_by_tokens ct body title csize coverlap idx). consistent ct c"
      using Cons.prems(1) split_by_tokens_consistent by (simp add: ball_Un)
    from Cons.IH[OF this secs] show ?thesis
      using False by (simp add: sec Let_def)
  qed
qed

lemma section_loop_bodies_trimmed: "\<forall>sec \<in> set (section_loop t ms). strip (snd sec) = snd sec"
proof (induction ms)
  case Nil
  show ?case by simp
next
  case (Cons m ms)
  obtain s e where m: "m = (s, e)" by (cases m)
  from Cons.IH show ?case
    by (simp add: m Let_def strip_strip ball_Un)
qed

lemma sections_of_bodies_trimmed:
  "ms \<noteq> [] \<Longrightarrow> \<forall>sec \<in> set (sections_of ms t). strip (snd sec) = snd sec"
proof -
  assume "ms \<noteq> []"
  then obtain s0 e0 rest where ms: "ms = (s0, e0) # rest" by (cases ms) auto
  have "\<forall>sec \<in> set (section_loop t ((s0, e0) # rest)). strip (snd sec) = snd sec"
    by (rule section_loop_bodies_trimmed)
  then show ?thesis
    unfolding ms sections_of_def
    by (simp add: Let_def strip_strip ball_Un del: section_loop.simps)
qed

lemma token_count_consistent_elsewhere:
  assumes "finditer header_regex t \<noteq> [] \<or> strip t = t"
  shows "\<forall>c \<in> set (chunk_text count_tokens settings t size_arg overlap_arg).
           token_count c = count_tokens (content c)"
proof -
  have "\<forall>sec \<in> set (detect_sections t). strip (snd sec) = snd sec"
  proof (cases "finditer header_regex t = []")
    case True
    with assms show ?thesis by (simp add: detect_sections_def sections_of_def)
  next
    case False
    then show ?thesis
      unfolding detect_sections_def by (rule sections_of_bodies_trimmed)
  qed
  from chunk_sections_consistent[of "[]" count_tokens, OF _ this]
  show ?thesis by (simp add: chunk_text_def Let_def consistent_def)
qed

subsection \<open>Blank queries\<close>

lemma split_scan_blank: "\<forall>c \<in> set s. is_space c \<Longrightarrow> split_scan None s = []"
  by (induction s) auto

lemma clean_text_blank: "\<forall>c \<in> set s. is_space c \<Longrightarrow> clean_text s = []"
  by (simp add: clean_text_def py_split_def split_scan_blank)

text \<open>
  C10, blank queries. For every query that is empty or consists of blanks only,
  \<open>embed_query\<close> raises \<open>ValueError\<close>, whatever the embedding API would answer, and so
  \<open>ValueError\<close> is the only outcome of \<open>retrieve_chunks\<close>.
\<close>

theorem blank_query_raises_value_error:
  assumes "\<forall>c \<in> set query. is_space c"
  shows "embed_query api query = Inl ValueError
       \<and> (retrieve_chunks settings api db query pid top_k_arg outcome
            \<longleftrightarrow> outcome = Inl ValueError)"
  using assms by (simp add: embed_query_def retrieve_chunks_def clean_text_blank)

theorem blank_query_raises_value_error_witness:
  "embed_query sample_api ''  '' = Inl ValueError
   \<and> retrieve_chunks default_settings sample_api ranker_example ''  '' None None
       (Inl ValueError)"
proof -
  have "\<forall>c \<in> set ''  ''. is_space c" by (simp add: is_space_def)
  from blank_query_raises_value_error[OF this] show ?thesis by blast
qed

subsection \<open>The answer cache\<close>

text \<open>
  C7, duplicate cache rows. The claim: with two rows for one question the lookup
  returns one of them and does not raise. The lookup raises.
\<close>

theorem duplicate_rows_lookup_counterexample:
  "get_cached_answer [row_of 0 ''Why?'' ''Because.'', row_of 1 ''Why?'' ''Because.''] ''Why?''
     = Inl MultipleResultsFound"
  by (simp add: get_cached_answer_def scalar_one_or_none_def row_of_def)

text \<open>
  C7 as amended: with two or more rows for the question, \<open>get_cached_answer\<close> raises
  \<open>MultipleResultsFound\<close>, and \<open>answer_question\<close> raises it too and changes nothing.
\<close>

theorem duplicate_rows_raise:
  assumes "2 \<le> length (filter (\<lambda>r. question r = q) (cache w))"
  shows "get_cached_answer (cache w) q = Inl MultipleResultsFound
       \<and> answer_question svc w q = (Inl MultipleResultsFound, w)"
proof -
  obtain r r' rs where "filter (\<lambda>r. question r = q) (cache w) = r # r' # rs"
    using assms by (cases "filter (\<lambda>r. question r = q) (cache w)" rule: remdups_adj.cases) auto
  then have "get_cached_answer (cache w) q = Inl MultipleResultsFound"
    by (simp add: get_cached_answer_def scalar_one_or_none_def)
  then show ?thesis by (simp add: answer_question_def)
qed

theorem duplicate_rows_raise_witness:
  "get_cached_answer
     (cache (fresh_world\<lparr>cache := [row_of 0 ''Q'' ''A'', row_of 1 ''Q'' ''B'']\<rparr>)) ''Q''
     = Inl MultipleResultsFound
   \<and> answer_question (sample_services [])
       (fresh_world\<lparr>cache := [row_of 0 ''Q'' ''A'', row_of 1 ''Q'' ''B'']\<rparr>) ''Q''
     = (Inl MultipleResultsFound,
        fresh_world\<lparr>cache := [row_of 0 ''Q'' ''A'', row_of 1 ''Q'' ''B'']\<rparr>)"
  by (rule duplicate_rows_raise) (simp add: row_of_def)

lemma sort_key_Nil_iff: "sort_key f xs = [] \<longleftrightarrow> xs = []"
proof -
  have "length (sort_key f xs) = length xs" by (rule length_sort)
  then show ?thesis by (metis length_0_conv)
qed

text \<open>
  When the cache has no row for the question and the retrieval finds no chunk, the
  page ranks, answers that nothing was found and stores nothing.
\<close>

lemma no_chunk_stores_nothing:
  assumes "filter (\<lambda>r. question r = q) (cache w) = []" and "retrieve svc q = Inr []"
  shows "answer_question svc w q =
           (Inr \<lparr>answer_text = not_found_message, cached = False, confidence = ''low'',
                 source_chunks = []\<rparr>,
            w\<lparr>calls := calls w @ [Ranked q]\<rparr>)"
  using assms
  by (simp add: answer_question_def get_cached_answer_def scalar_one_or_none_def)

text \<open>
  C6, cache short-circuit. The claim: for every question, asking it twice runs the
  ranking once and the second answer is a cache hit. When the retrieval finds no
  chunk, the page answers without storing a row: the second ask ranks again and is
  no cache hit.
\<close>

theorem no_chunk_found_counterexample:
  "answer_question (sample_services []) fresh_world ''Why?'' =
     (Inr \<lparr>answer_text = not_found_message, cached = False, confidence = ''low'',
           source_chunks = []\<rparr>,
      fresh_world\<lparr>calls := [Ranked ''Why?'']\<rparr>)
   \<and> answer_question (sample_services []) (fresh_world\<lparr>calls := [Ranked ''Why?'']\<rparr>) ''Why?'' =
     (Inr \<lparr>answer_text = not_found_message, cached = False, confidence = ''low'',
           source_chunks = []\<rparr>,
      fresh_world\<lparr>calls := [Ranked ''Why?'', Ranked ''Why?'']\<rparr>)"
  by (simp add: answer_question_def get_cached_answer_def scalar_one_or_none_def
      sample_services_def fresh_world_def)

text \<open>
  C6 as amended: when the cache has no row for the question and the retrieval finds
  at least one chunk with a paper id, the first ask ranks, compresses, generates and
  stores once, and the second ask of the same string returns the stored answer as a
  cache hit and causes no further event.
\<close>

theorem second_ask_hits_cache:
  assumes "filter (\<lambda>r. question r = q) (cache w) = []"
    and "retrieve svc q = Inr found" and "found \<noteq> []" and "paper_ids_of found \<noteq> []"
  shows "\<exists>r1 w1 r2.
           answer_question svc w q = (Inr r1, w1) \<and> \<not> cached r1
         \<and> calls w1 = calls w @ [Ranked q, Compressed q, Generated q, Stored q]
         \<and> answer_question svc w1 q = (Inr r2, w1) \<and> cached r2
         \<and> answer_text r2 = answer_text r1"
  using assms
  by (simp add: answer_question_def get_cached_answer_def scalar_one_or_none_def
      cache_answer_def Let_def sort_key_Nil_iff)

theorem second_ask_hits_cache_witness:
  "\<exists>r1 w1 r2.
     answer_question (sample_services [one_chunk]) fresh_world ''Why?'' = (Inr r1, w1)
   \<and> \<not> cached r1
   \<and> calls w1 = calls fresh_world
        @ [Ranked ''Why?'', Compressed ''Why?'', Generated ''Why?'', Stored ''Why?'']
   \<and> answer_question (sample_services [one_chunk]) w1 ''Why?'' = (Inr r2, w1) \<and> cached r2
   \<and> answer_text r2 = answer_text r1"
  by (rule second_ask_hits_cache[where found = "[one_chunk]"])
     (simp_all add: fresh_world_def sample_services_def paper_ids_of_def one_chunk_def)

subsection \<open>The similarity ranker\<close>

lemma to_retrieved_row_with: "to_retrieved (row_with i v, s) = retrieved_with i s"
  by (simp add: to_retrieved_def row_with_def retrieved_with_def)

lemma similarity_score_to_retrieved: "similarity_score (to_retrieved x) = snd x"
  by (cases x) (simp add: to_retrieved_def)

lemma chunk_id_to_retrieved: "chunk_id (to_retrieved x) = row_id (fst x)"
  by (cases x) (simp add: to_retrieved_def)

lemma zero_denominator_null: "magnitude_product e q = Some 0 \<Longrightarrow> similarity e q = None"
  by (simp add: similarity_def nullif_zero_def split: option.splits)

lemma sum_squares_nonneg: "0 \<le> sum_list (map (\<lambda>a. a * a) (xs :: real list))"
  by (induction xs) auto

lemma sum_squares_zero_iff:
  "sum_list (map (\<lambda>a. a * a) (xs :: real list)) = 0 \<longleftrightarrow> (\<forall>x \<in> set xs. x = 0)"
proof (induction xs)
  case Nil
  show ?case by simp
next
  case (Cons a xs)
  have "a * a + sum_list (map (\<lambda>a. a * a) xs) = 0
          \<longleftrightarrow> a * a = 0 \<and> sum_list (map (\<lambda>a. a * a) xs) = 0"
    by (rule add_nonneg_eq_0_iff) (simp_all add: sum_squares_nonneg)
  then show ?case using Cons.IH by simp
qed

lemma magnitude_zero_iff:
  "magnitude_product e q = Some 0 \<longleftrightarrow>
     e \<noteq> [] \<and> q \<noteq> [] \<and> ((\<forall>x \<in> set e. x = 0) \<or> (\<forall>x \<in> set q. x = 0))"
  by (auto simp: magnitude_product_def sql_sum_def sum_squares_zero_iff split: if_splits)

lemma valid_candidates_set:
  "(r, s) \<in> set (valid_candidates q rows)
     \<longleftrightarrow> r \<in> set rows \<and> similarity (row_embedding r) q = Some s"
  by (auto simp: valid_candidates_def split: option.splits)

lemma paper_filter_subset: "set (paper_filter pid db) \<subseteq> set db"
  by (auto simp: paper_filter_def split: option.splits)

lemma order_by_set: "order_by_desc_limit k xs res \<Longrightarrow> set res \<subseteq> set xs"
  by (auto simp: order_by_desc_limit_def dest: in_set_takeD mset_eq_setD)

lemma order_by_sorted:
  "order_by_desc_limit k xs res \<Longrightarrow> sorted_wrt (\<lambda>a b. a \<ge> b) (map snd res)"
  by (auto simp: order_by_desc_limit_def sorted_wrt_map intro: sorted_wrt_take)

lemma order_by_length: "order_by_desc_limit k xs res \<Longrightarrow> length res = min k (length xs)"
  by (auto simp: order_by_desc_limit_def dest: mset_eq_length)

lemma order_by_mset:
  assumes "order_by_desc_limit k xs res"
  shows "mset res \<subseteq># mset xs"
proof -
  from assms obtain ys where ys: "mset ys = mset xs" "res = take k ys"
    by (auto simp: order_by_desc_limit_def)
  have "mset (take k ys) \<subseteq># mset (take k ys) + mset (drop k ys)" by simp
  then have "mset (take k ys) \<subseteq># mset ys"
    by (metis append_take_drop_id mset_append)
  then show ?thesis using ys by simp
qed

lemma order_by_single: "order_by_desc_limit k [x] res \<longleftrightarrow> res = take k [x]"
  by (auto simp: order_by_desc_limit_def)

text \<open>The ranker of the specification's words is one of the permitted results.\<close>

lemma stable_rank_permitted:
  assumes "0 \<le> k" and "q \<noteq> []"
  shows "vector_search db q k None (Inr (stable_rank db q (nat k)))"
proof -
  let ?xs = "valid_candidates q db"
  let ?ys = "sort_key (\<lambda>x. - snd x) ?xs"
  have "sorted (map (\<lambda>x. - snd x) ?ys)" by (rule sorted_sort_key)
  then have "sorted_wrt (\<lambda>a b. snd a \<ge> snd b) ?ys"
    by (simp add: sorted_wrt_map)
  then have "order_by_desc_limit (nat k) ?xs (take (nat k) ?ys)"
    unfolding order_by_desc_limit_def by (intro exI[of _ ?ys]) simp
  then show ?thesis
    using assms by (auto simp: vector_search_def stable_rank_def paper_filter_def)
qed

lemma example_candidates:
  "valid_candidates [1, 0] (paper_filter None ranker_example) = [(row_with ''A'' [1, 0], 1)]"
  by (simp add: valid_candidates_def paper_filter_def ranker_example_def row_with_def
      similarity_def dot_product_def sql_sum_def magnitude_product_def nullif_zero_def)

lemma example_outcome:
  "vector_search ranker_example [1, 0] 5 None outcome
     \<longleftrightarrow> outcome = Inr [retrieved_with ''A'' 1]"
  by (auto simp: vector_search_def example_candidates order_by_single to_retrieved_row_with)

lemma zero_denominator_row_absent:
  assumes d: "distinct (map row_id db)" and v: "vector_search db q k pid (Inr res)"
    and r: "r \<in> set db" and z: "magnitude_product (row_embedding r) q = Some 0"
  shows "row_id r \<notin> set (map chunk_id res)"
proof
  assume "row_id r \<in> set (map chunk_id res)"
  then obtain c where c: "c \<in> set res" "chunk_id c = row_id r" by auto
  from v obtain xs where
    xs: "order_by_desc_limit (nat k) (valid_candidates q (paper_filter pid db)) xs"
      "res = map to_retrieved xs"
    by (auto simp: vector_search_def split: if_splits)
  from c xs obtain x where x: "x \<in> set xs" "c = to_retrieved x" by auto
  obtain r' s where rs: "x = (r', s)" by (cases x)
  from x(1) order_by_set[OF xs(1)] rs
  have "(r', s) \<in> set (valid_candidates q (paper_filter pid db))" by auto
  then have r': "r' \<in> set db" "similarity (row_embedding r') q = Some s"
    using paper_filter_subset[of pid db] by (auto simp: valid_candidates_set)
  have "row_id r' = row_id r"
    using c(2) x(2) rs by (simp add: chunk_id_to_retrieved)
  then have "r' = r"
    using d r r'(1) by (meson distinct_map inj_onD)
  then show False using r'(2) zero_denominator_null[OF z] by simp
qed

text \<open>
  C4, zero denominators. A stored chunk whose similarity denominator is exactly zero
  is in no result of the ranker (chunk ids are the table's key); the denominator is
  zero exactly when the embedding or the query is a zero vector; and in the
  specification's scenario, candidates A with \<open>[1, 0]\<close> and B with \<open>[0, 0]\<close>, query
  \<open>[1, 0]\<close> and \<open>k = 5\<close>, the only outcome is A alone with score 1.
\<close>

theorem zero_denominator_excluded:
  "(distinct (map row_id db) \<and> vector_search db q k pid (Inr res) \<and> r \<in> set db
      \<and> magnitude_product (row_embedding r) q = Some 0
      \<longrightarrow> row_id r \<notin> set (map chunk_id res))
   \<and> (magnitude_product e q = Some 0
        \<longleftrightarrow> e \<noteq> [] \<and> q \<noteq> [] \<and> ((\<forall>x \<in> set e. x = 0) \<or> (\<forall>x \<in> set q. x = 0)))
   \<and> (vector_search ranker_example [1, 0] 5 None outcome
        \<longleftrightarrow> outcome = Inr [retrieved_with ''A'' 1])"
  using zero_denominator_row_absent[of db q k pid res r] magnitude_zero_iff[of e q]
    example_outcome[of outcome]
  by blast

theorem zero_denominator_excluded_witness:
  "distinct (map row_id ranker_example)
   \<and> vector_search ranker_example [1, 0] 5 None (Inr [retrieved_with ''A'' 1])
   \<and> row_with ''B'' [0, 0] \<in> set ranker_example
   \<and> magnitude_product (row_embedding (row_with ''B'' [0, 0])) [1, 0] = Some 0
   \<and> row_id (row_with ''B'' [0, 0]) \<notin> set (map chunk_id [retrieved_with ''A'' 1])"
proof -
  have a: "distinct (map row_id ranker_example)"
    by (simp add: ranker_example_def row_with_def)
  have b: "vector_search ranker_example [1, 0] 5 None (Inr [retrieved_with ''A'' 1])"
    by (simp add: example_outcome)
  have c: "row_with ''B'' [0, 0] \<in> set ranker_example"
    by (simp add: ranker_example_def)
  have d: "magnitude_product (row_embedding (row_with ''B'' [0, 0])) [1, 0] = Some 0"
    by (simp add: magnitude_product_def sql_sum_def row_with_def)
  from zero_denominator_excluded[of ranker_example "[1, 0]" 5 None "[retrieved_with ''A'' 1]"
      "row_with ''B'' [0, 0]"] a b c d
  show ?thesis by blast
qed

lemma tie_candidates:
  "valid_candidates [1, 0] (paper_filter None tie_example) =
     [(row_with ''A'' [1, 0], 1), (row_with ''B'' [1, 0], 1)]"
  by (simp add: valid_candidates_def paper_filter_def tie_example_def row_with_def
      similarity_def dot_product_def sql_sum_def magnitude_product_def nullif_zero_def)

text \<open>With exact arithmetic the second model of the query is the first.\<close>

lemma and_then_Inr: "and_then (Inr v) f = f v"
  by (simp add: and_then_def)

lemma and_then_Inl: "and_then (Inl e) f = Inl e"
  by (simp add: and_then_def)

lemma checked_Some: "checked (Some v) = Inr v"
  by (simp add: checked_def)

lemma exact_sum_from: "f8_sum_from exact_arith acc xs = Inr (acc + sum_list xs)"
  by (induction xs arbitrary: acc) (simp_all add: exact_arith_def and_then_Inr checked_Some)

lemma exact_sum: "f8_sum exact_arith xs = Inr (sql_sum xs)"
  by (cases xs) (simp_all add: f8_sum_def sql_sum_def exact_sum_from and_then_Inr)

lemma exact_products: "f8_products exact_arith ps = Inr (map (\<lambda>(a, b). a * b) ps)"
proof (induction ps)
  case Nil
  show ?case by simp
next
  case (Cons p ps)
  obtain a b where p: "p = (a, b)" by (cases p)
  have m: "f8_mul exact_arith a b = Some (a * b)" by (simp add: exact_arith_def)
  show ?case
    by (simp add: p m Cons.IH and_then_Inr checked_Some)
qed

lemma exact_dot_product: "f8_dot_product exact_arith e q = Inr (dot_product e q)"
  by (simp add: f8_dot_product_def dot_product_def exact_products and_then_Inr exact_sum)

lemma exact_sum_squares: "f8_sum_squares exact_arith v = Inr (sql_sum (map (\<lambda>a. a * a) v))"
  by (simp add: f8_sum_squares_def exact_products and_then_Inr exact_sum comp_def)

lemma exact_magnitude_product:
  "f8_magnitude_product exact_arith e q = Inr (magnitude_product e q)"
proof -
  have ops: "f8_sqrt exact_arith x = Some (sqrt x)" "f8_mul exact_arith x y = Some (x * y)" for x y
    by (simp_all add: exact_arith_def)
  show ?thesis
    by (simp add: f8_magnitude_product_def magnitude_product_def exact_sum_squares
        and_then_Inr checked_Some ops split: option.splits)
qed

lemma exact_similarity: "f8_similarity exact_arith e q = Inr (similarity e q)"
proof -
  have ops: "f8_div exact_arith x y = Some (x / y)" for x y
    by (simp add: exact_arith_def)
  show ?thesis
    by (simp add: f8_similarity_def similarity_def exact_dot_product exact_magnitude_product
        and_then_Inr checked_Some ops split: option.splits)
qed

lemma exact_candidates: "f8_candidates exact_arith q rows = Inr (valid_candidates q rows)"
proof (induction rows)
  case Nil
  show ?case by (simp add: valid_candidates_def)
next
  case (Cons r rows)
  have "valid_candidates q (r # rows) =
          (case similarity (row_embedding r) q of None \<Rightarrow> [] | Some s \<Rightarrow> [(r, s)])
          @ valid_candidates q rows"
    by (simp add: valid_candidates_def)
  then show ?case
    by (simp add: Cons.IH exact_similarity and_then_Inr split: option.splits)
qed

lemma exact_vector_search:
  "f8_vector_search exact_arith db q k pid outcome \<longleftrightarrow> vector_search db q k pid outcome"
  by (simp add: f8_vector_search_def vector_search_def exact_candidates)

lemma taken_dominate_dropped:
  assumes "sorted_wrt (\<lambda>a b. snd a \<ge> snd b) (ys :: ('a \<times> real) list)"
  shows "\<forall>x \<in> set (drop k ys). \<forall>r \<in> set (take k ys). snd x \<le> snd r"
proof -
  have "sorted_wrt (\<lambda>a b. snd a \<ge> snd b) (take k ys @ drop k ys)"
    using assms by simp
  then show ?thesis unfolding sorted_wrt_append by blast
qed

lemma order_by_left_out:
  assumes "order_by_desc_limit k xs res"
  shows "\<forall>x \<in># mset xs - mset res. \<forall>r \<in> set res. snd x \<le> snd r"
proof -
  from assms obtain ys where ys: "mset ys = mset xs"
      "sorted_wrt (\<lambda>a b. snd a \<ge> snd b) ys" "res = take k ys"
    by (auto simp: order_by_desc_limit_def)
  have "mset ys = mset (take k ys) + mset (drop k ys)"
    by (metis append_take_drop_id mset_append)
  then have "mset xs - mset res = mset (drop k ys)"
    using ys(1,3) by simp
  then show ?thesis
    using taken_dominate_dropped[OF ys(2), of k] ys(3) by simp
qed

lemma sorted_desc_scores_unique:
  assumes "mset ys = mset ys'"
    and "sorted_wrt (\<lambda>a b. snd a \<ge> snd b) (ys :: ('a \<times> real) list)"
    and "sorted_wrt (\<lambda>a b. snd a \<ge> snd b) ys'"
  shows "map snd ys = map snd ys'"
proof -
  have a: "sorted (map (\<lambda>x. - snd x) ys)" "sorted (map (\<lambda>x. - snd x) ys')"
    using assms(2,3) by (simp_all add: sorted_wrt_map)
  have "mset (map (\<lambda>x. - snd x) ys) = mset (map (\<lambda>x. - snd x) ys')"
    using assms(1) by (metis mset_map)
  then have "map (\<lambda>x. - snd x) ys = map (\<lambda>x. - snd x) ys'"
    using a by (metis properties_for_sort)
  then have "map uminus (map snd ys) = map uminus (map snd ys')"
    by (simp add: comp_def)
  then show ?thesis
    by (metis (no_types, lifting) map_map map_idI comp_apply minus_minus)
qed

lemma order_by_scores_unique:
  assumes "order_by_desc_limit k xs res" and "order_by_desc_limit k xs res'"
  shows "map snd res' = map snd res"
proof -
  from assms obtain ys ys' where
    ys: "mset ys = mset xs" "sorted_wrt (\<lambda>a b. snd a \<ge> snd b) ys" "res = take k ys" and
    ys': "mset ys' = mset xs" "sorted_wrt (\<lambda>a b. snd a \<ge> snd b) ys'" "res' = take k ys'"
    by (auto simp: order_by_desc_limit_def)
  have "map snd ys' = map snd ys"
    by (rule sorted_desc_scores_unique) (simp_all add: ys ys')
  then show ?thesis by (simp add: ys(3) ys'(3) take_map[symmetric])
qed

lemma f8_vector_search_results:
  assumes "f8_vector_search ar db q k pid (Inr res)"
  obtains cands xs where "f8_candidates ar q (paper_filter pid db) = Inr cands"
    and "order_by_desc_limit (nat k) cands xs" and "res = map to_retrieved xs"
  using assms by (auto simp: f8_vector_search_def split: if_splits sum.splits)

lemma f8_vector_search_total: "\<exists>outcome. f8_vector_search ar db q k pid outcome"
proof (cases "k < 0 \<or> q = []")
  case True
  then show ?thesis by (auto simp: f8_vector_search_def)
next
  case False
  show ?thesis
  proof (cases "f8_candidates ar q (paper_filter pid db)")
    case (Inl e)
    with False show ?thesis by (auto simp: f8_vector_search_def)
  next
    case (Inr cands)
    let ?ys = "sort_key (\<lambda>x. - snd x) cands"
    have "sorted (map (\<lambda>x. - snd x) ?ys)" by (rule sorted_sort_key)
    then have "sorted_wrt (\<lambda>a b. snd a \<ge> snd b) ?ys" by (simp add: sorted_wrt_map)
    then have "order_by_desc_limit (nat k) cands (take (nat k) ?ys)"
      unfolding order_by_desc_limit_def by (intro exI[of _ ?ys]) simp
    with False Inr show ?thesis by (auto simp: f8_vector_search_def)
  qed
qed

lemma tie_reversed_permitted:
  "f8_vector_search exact_arith tie_example [1, 0] 5 None
     (Inr [retrieved_with ''B'' 1, retrieved_with ''A'' 1])"
proof -
  have "order_by_desc_limit 5 [(row_with ''A'' [1, 0], 1), (row_with ''B'' [1, 0], 1)]
          [(row_with ''B'' [1, 0], 1), (row_with ''A'' [1, 0], 1::real)]"
    unfolding order_by_desc_limit_def
    by (rule exI[of _ "[(row_with ''B'' [1, 0], 1), (row_with ''A'' [1, 0], 1)]"]) simp
  then have "vector_search tie_example [1, 0] 5 None
      (Inr [retrieved_with ''B'' 1, retrieved_with ''A'' 1])"
    unfolding vector_search_def tie_candidates
    by (auto intro!: exI[of _ "[(row_with ''B'' [1, 0], 1), (row_with ''A'' [1, 0], 1)]"]
        simp: to_retrieved_row_with)
  then show ?thesis by (simp only: exact_vector_search)
qed

lemma tie_stable_permitted:
  "f8_vector_search exact_arith tie_example [1, 0] 5 None
     (Inr [retrieved_with ''A'' 1, retrieved_with ''B'' 1])"
proof -
  have "order_by_desc_limit 5 [(row_with ''A'' [1, 0], 1), (row_with ''B'' [1, 0], 1)]
          [(row_with ''A'' [1, 0], 1), (row_with ''B'' [1, 0], 1::real)]"
    unfolding order_by_desc_limit_def
    by (rule exI[of _ "[(row_with ''A'' [1, 0], 1), (row_with ''B'' [1, 0], 1)]"]) simp
  then have "vector_search tie_example [1, 0] 5 None
      (Inr [retrieved_with ''A'' 1, retrieved_with ''B'' 1])"
    unfolding vector_search_def tie_candidates
    by (auto intro!: exI[of _ "[(row_with ''A'' [1, 0], 1), (row_with ''B'' [1, 0], 1)]"]
        simp: to_retrieved_row_with)
  then show ?thesis by (simp only: exact_vector_search)
qed

lemma order_by_left_out_retrieved:
  assumes "order_by_desc_limit k cands xs"
  shows "\<forall>x \<in># mset (map to_retrieved cands) - mset (map to_retrieved xs).
           \<forall>r \<in> set (map to_retrieved xs). similarity_score x \<le> similarity_score r"
proof -
  from assms obtain ys where ys: "mset ys = mset cands"
      "sorted_wrt (\<lambda>a b. snd a \<ge> snd b) ys" "xs = take k ys"
    by (auto simp: order_by_desc_limit_def)
  have "mset (map to_retrieved cands) = mset (map to_retrieved ys)"
    using ys(1) by (metis mset_map)
  also have "\<dots> = mset (map to_retrieved (take k ys)) + mset (map to_retrieved (drop k ys))"
    by (metis append_take_drop_id map_append mset_append)
  finally have d: "mset (map to_retrieved cands) - mset (map to_retrieved xs) =
                   mset (map to_retrieved (drop k ys))"
    by (simp add: ys(3))
  show ?thesis
    unfolding d using taken_dominate_dropped[OF ys(2), of k]
    by (auto simp: ys(3) similarity_score_to_retrieved)
qed

text \<open>
  C5, top-k ordering. The claim: the output is sorted by descending score, has length
  \<open>min k n\<close> for \<open>n\<close> valid candidates, and ties are broken by input order, so the result
  is determined by the input. The query orders by the score alone: with candidates A
  and B of equal score, B before A is a result of the query, and it is not the result
  of the stable ranker.
\<close>

theorem tie_order_counterexample:
  "f8_vector_search exact_arith tie_example [1, 0] 5 None
     (Inr [retrieved_with ''B'' 1, retrieved_with ''A'' 1])
   \<and> stable_rank tie_example [1, 0] 5 = [retrieved_with ''A'' 1, retrieved_with ''B'' 1]"
proof -
  have "stable_rank tie_example [1, 0] 5 = [retrieved_with ''A'' 1, retrieved_with ''B'' 1]"
    using tie_candidates by (simp add: stable_rank_def paper_filter_def to_retrieved_row_with)
  then show ?thesis using tie_reversed_permitted by simp
qed

text \<open>
  C5 as amended, for every \<open>float8\<close> arithmetic: every result of the ranker is sorted
  by descending score, has length \<open>min k n\<close> for \<open>n\<close> valid candidates (all of them when
  \<open>n \<le> k\<close>), consists of valid candidates, each at most as often as it is stored, and
  every valid candidate left out scores no more than every candidate returned; any
  two results for the same input have the same scores in the same order. The result
  is determined up to the order of candidates with equal scores.
\<close>

theorem ranker_top_k_up_to_ties:
  assumes "f8_vector_search ar db q k pid (Inr res)"
    and "f8_vector_search ar db q k pid (Inr res')"
  shows "\<exists>cands. f8_candidates ar q (paper_filter pid db) = Inr cands
           \<and> sorted_wrt (\<lambda>a b. a \<ge> b) (map similarity_score res)
           \<and> length res = min (nat k) (length cands)
           \<and> mset res \<subseteq># mset (map to_retrieved cands)
           \<and> (\<forall>x \<in># mset (map to_retrieved cands) - mset res.
                 \<forall>r \<in> set res. similarity_score x \<le> similarity_score r)
           \<and> map similarity_score res' = map similarity_score res"
proof -
  from assms(1) obtain cands xs where
    c: "f8_candidates ar q (paper_filter pid db) = Inr cands" and
    xs: "order_by_desc_limit (nat k) cands xs" "res = map to_retrieved xs"
    by (rule f8_vector_search_results)
  from assms(2) obtain cands' xs' where
    c': "f8_candidates ar q (paper_filter pid db) = Inr cands'" and
    xs': "order_by_desc_limit (nat k) cands' xs'" "res' = map to_retrieved xs'"
    by (rule f8_vector_search_results)
  from c c' have same: "cands' = cands" by simp
  have m: "map similarity_score res = map snd xs" "map similarity_score res' = map snd xs'"
    by (simp_all add: xs(2) xs'(2) similarity_score_to_retrieved)
  have s: "sorted_wrt (\<lambda>a b. a \<ge> b) (map similarity_score res)"
    unfolding m by (rule order_by_sorted[OF xs(1)])
  have l: "length res = min (nat k) (length cands)"
    using order_by_length[OF xs(1)] by (simp add: xs(2))
  have sub: "mset res \<subseteq># mset (map to_retrieved cands)"
    using order_by_mset[OF xs(1)] by (simp add: xs(2) image_mset_subseteq_mono)
  have out: "\<forall>x \<in># mset (map to_retrieved cands) - mset res.
               \<forall>r \<in> set res. similarity_score x \<le> similarity_score r"
    unfolding xs(2) by (rule order_by_left_out_retrieved[OF xs(1)])
  have u: "map similarity_score res' = map similarity_score res"
    unfolding m using xs(1) xs'(1) unfolding same by (rule order_by_scores_unique)
  from c s l sub out u show ?thesis by blast
qed

theorem ranker_top_k_up_to_ties_witness:
  "\<exists>cands. f8_candidates exact_arith [1, 0] (paper_filter None tie_example) = Inr cands
     \<and> sorted_wrt (\<lambda>a b. a \<ge> b)
         (map similarity_score [retrieved_with ''B'' 1, retrieved_with ''A'' 1])
     \<and> length [retrieved_with ''B'' 1, retrieved_with ''A'' 1] = min (nat 5) (length cands)
     \<and> mset [retrieved_with ''B'' 1, retrieved_with ''A'' 1] \<subseteq># mset (map to_retrieved cands)
     \<and> (\<forall>x \<in># mset (map to_retrieved cands)
                  - mset [retrieved_with ''B'' 1, retrieved_with ''A'' 1].
           \<forall>r \<in> set [retrieved_with ''B'' 1, retrieved_with ''A'' 1].
             similarity_score x \<le> similarity_score r)
     \<and> map similarity_score [retrieved_with ''A'' 1, retrieved_with ''B'' 1] =
         map similarity_score [retrieved_with ''B'' 1, retrieved_with ''A'' 1]"
  by (rule ranker_top_k_up_to_ties) (rule tie_reversed_permitted, rule tie_stable_permitted)

subsection \<open>Matches are ordered and within the text\<close>

















subsection \<open>Section bodies and the text\<close>








end
